theory Spec2Isabelle
  imports Main "HOL-Library.Sublist"
begin

section \<open>Strings and regular expressions of the host language\<close>

text \<open>
  The sources are TypeScript. A string is modelled as a \<^typ>\<open>string\<close>: a list of
  code units, here the code units below 256, so that the line terminators in range are
  LF and CR and the white space in range is TAB, LF, VT, FF, CR, SPACE and NBSP.

  The regular expressions of the sources are kept as syntax trees and run by one
  backtracking matcher that follows the priority order of the language: an alternative
  tries its left side first, a greedy quantifier tries one more iteration before it tries
  the rest of the pattern, a lazy quantifier the other way round, an iteration of \<open>*\<close> that
  consumes nothing is refused, and the groups of a quantified pattern are cleared when an
  iteration starts.
\<close>

datatype item = IChar char | ISpace | INonSpace | IDigit | IWord | IAlpha

text \<open>
  The members of a character class: a code unit, \<open>\s\<close>, \<open>\S\<close>, \<open>\d\<close>, \<open>\w\<close> and the range
  \<open>a-z\<close>. An atom is a code unit, the dot, or a class, negated when its flag is set.
\<close>

datatype atom = Lit char | Dot | Cls bool "item list"

datatype rx = Atom atom | Eps | Seq rx rx | Alt rx rx | Star bool rx | Grp nat rx

record regexp =
  pattern :: rx
  ignoreCase :: bool
  global :: bool

definition is_line_terminator :: "char \<Rightarrow> bool" where
  "is_line_terminator c = (c = CHR 0x0A \<or> c = CHR 0x0D)"

definition is_space :: "char \<Rightarrow> bool" where
  "is_space c =
     (c = CHR 0x09 \<or> c = CHR 0x0A \<or> c = CHR 0x0B \<or> c = CHR 0x0C \<or> c = CHR 0x0D \<or>
      c = CHR 0x20 \<or> c = CHR 0xA0)"

definition is_digit :: "char \<Rightarrow> bool" where
  "is_digit c = (c \<in> set ''0123456789'')"

definition is_word :: "char \<Rightarrow> bool" where
  "is_word c =
     (c \<in> set ''abcdefghijklmnopqrstuvwxyz'' \<or> c \<in> set ''ABCDEFGHIJKLMNOPQRSTUVWXYZ'' \<or>
      is_digit c \<or> c = CHR ''_'')"

text \<open>
  Under the \<open>i\<close> flag two code units match when their canonical forms are equal. Every
  letter of the patterns below is an ASCII letter, and the only code units whose canonical
  form is an ASCII capital are that capital and its small letter.
\<close>

definition canon :: "char \<Rightarrow> char" where
  "canon c =
     (case map_of (zip ''abcdefghijklmnopqrstuvwxyz'' ''ABCDEFGHIJKLMNOPQRSTUVWXYZ'') c of
        Some u \<Rightarrow> u
      | None \<Rightarrow> c)"

fun item_matches :: "bool \<Rightarrow> item \<Rightarrow> char \<Rightarrow> bool" where
  "item_matches ic (IChar a) c = (if ic then canon a = canon c else a = c)"
| "item_matches ic ISpace c = is_space c"
| "item_matches ic INonSpace c = (\<not> is_space c)"
| "item_matches ic IDigit c = is_digit c"
| "item_matches ic IWord c = is_word c"
| "item_matches ic IAlpha c =
     (c \<in> set ''abcdefghijklmnopqrstuvwxyz'' \<or> (ic \<and> c \<in> set ''ABCDEFGHIJKLMNOPQRSTUVWXYZ''))"

fun atom_matches :: "bool \<Rightarrow> atom \<Rightarrow> char \<Rightarrow> bool" where
  "atom_matches ic (Lit a) c = (if ic then canon a = canon c else a = c)"
| "atom_matches ic Dot c = (\<not> is_line_terminator c)"
| "atom_matches ic (Cls neg its) c = (list_ex (\<lambda>i. item_matches ic i c) its \<noteq> neg)"

type_synonym caps = "(nat \<times> string) list"

fun groups :: "rx \<Rightarrow> nat list" where
  "groups (Atom a) = []"
| "groups Eps = []"
| "groups (Seq r1 r2) = groups r1 @ groups r2"
| "groups (Alt r1 r2) = groups r1 @ groups r2"
| "groups (Star g r) = groups r"
| "groups (Grp n r) = n # groups r"

definition clear_groups :: "rx \<Rightarrow> caps \<Rightarrow> caps" where
  "clear_groups r c = filter (\<lambda>(n, _). n \<notin> set (groups r)) c"

text \<open>
  \<open>rxm ic r s c k\<close> matches \<open>r\<close> at the head of \<open>s\<close> and hands what is left of \<open>s\<close>, with
  the captures, to the continuation \<open>k\<close>; \<open>None\<close> from the continuation makes the matcher
  backtrack.
\<close>

fun rxm :: "bool \<Rightarrow> rx \<Rightarrow> string \<Rightarrow> caps \<Rightarrow> (string \<Rightarrow> caps \<Rightarrow> 'a option) \<Rightarrow> 'a option" where
  "rxm ic (Atom a) s c k =
     (case s of [] \<Rightarrow> None | x # xs \<Rightarrow> if atom_matches ic a x then k xs c else None)"
| "rxm ic Eps s c k = k s c"
| "rxm ic (Seq r1 r2) s c k = rxm ic r1 s c (\<lambda>s' c'. rxm ic r2 s' c' k)"
| "rxm ic (Alt r1 r2) s c k =
     (case rxm ic r1 s c k of Some v \<Rightarrow> Some v | None \<Rightarrow> rxm ic r2 s c k)"
| "rxm ic (Grp n r) s c k =
     rxm ic r s c (\<lambda>s' c'. k s' ((n, take (length s - length s') s) # c'))"
| "rxm ic (Star greedy r) s c k =
     (if greedy then
        (case rxm ic r s (clear_groups r c)
                (\<lambda>s' c'. if length s' < length s then rxm ic (Star greedy r) s' c' k else None) of
           Some v \<Rightarrow> Some v
         | None \<Rightarrow> k s c)
      else
        (case k s c of
           Some v \<Rightarrow> Some v
         | None \<Rightarrow>
             rxm ic r s (clear_groups r c)
               (\<lambda>s' c'. if length s' < length s then rxm ic (Star greedy r) s' c' k else None)))"

text \<open>The derived forms: a literal word, \<open>r?\<close>, \<open>r+\<close> and \<open>r+?\<close>.\<close>

fun lits :: "string \<Rightarrow> rx" where
  "lits [] = Eps"
| "lits (c # cs) = Seq (Atom (Lit c)) (lits cs)"

definition Opt :: "rx \<Rightarrow> rx" where
  "Opt r = Alt r Eps"

definition Plus :: "bool \<Rightarrow> rx \<Rightarrow> rx" where
  "Plus greedy r = Seq r (Star greedy r)"

text \<open>The first match at the head of \<open>s\<close>: its length and its captures.\<close>

definition match_here :: "regexp \<Rightarrow> string \<Rightarrow> (nat \<times> caps) option" where
  "match_here re s =
     rxm (ignoreCase re) (pattern re) s [] (\<lambda>s' c. Some (length s - length s', c))"

text \<open>The leftmost match in \<open>s\<close>: where it starts, its length and its captures.\<close>

fun rx_search :: "regexp \<Rightarrow> string \<Rightarrow> (nat \<times> nat \<times> caps) option" where
  "rx_search re [] =
     (case match_here re [] of Some (n, c) \<Rightarrow> Some (0, n, c) | None \<Rightarrow> None)"
| "rx_search re (x # xs) =
     (case match_here re (x # xs) of
        Some (n, c) \<Rightarrow> Some (0, n, c)
      | None \<Rightarrow> map_option (\<lambda>(i, n, c). (Suc i, n, c)) (rx_search re xs))"

text \<open>\<open>RegExp.prototype.test\<close> of a pattern without the \<open>g\<close> flag.\<close>

definition regexp_test :: "regexp \<Rightarrow> string \<Rightarrow> bool" where
  "regexp_test re s = (rx_search re s \<noteq> None)"

text \<open>
  \<open>RegExp.prototype.exec\<close> of a pattern with the \<open>g\<close> flag, from \<open>lastIndex\<close>: the start
  and the end of the match. After a match \<open>lastIndex\<close> is the end of the match, after a
  failure it is 0.
\<close>

definition regexp_exec :: "regexp \<Rightarrow> string \<Rightarrow> nat \<Rightarrow> (nat \<times> nat) option" where
  "regexp_exec re s lastIndex =
     (if lastIndex > length s then None
      else map_option (\<lambda>(i, n, c). (lastIndex + i, lastIndex + i + n))
             (rx_search re (drop lastIndex s)))"

definition substring :: "string \<Rightarrow> nat \<Rightarrow> nat \<Rightarrow> string" where
  "substring s i j = take (j - i) (drop i s)"

subsection \<open>Continuations by name\<close>

text \<open>
  The continuations that the matcher builds, as constants: with them a match on a given
  text is computed step by step, a continuation being unfolded when it is called.
\<close>

definition then_match :: "bool \<Rightarrow> rx \<Rightarrow> (string \<Rightarrow> caps \<Rightarrow> 'a option) \<Rightarrow> string \<Rightarrow> caps \<Rightarrow> 'a option" where
  "then_match ic r k s c = rxm ic r s c k"

definition end_group :: "nat \<Rightarrow> string \<Rightarrow> (string \<Rightarrow> caps \<Rightarrow> 'a option) \<Rightarrow> string \<Rightarrow> caps \<Rightarrow> 'a option" where
  "end_group n s0 k s c = k s ((n, take (length s0 - length s) s0) # c)"

definition next_iteration ::
  "bool \<Rightarrow> bool \<Rightarrow> rx \<Rightarrow> string \<Rightarrow> (string \<Rightarrow> caps \<Rightarrow> 'a option) \<Rightarrow> string \<Rightarrow> caps \<Rightarrow> 'a option" where
  "next_iteration ic greedy r s0 k s c =
     (if length s < length s0 then rxm ic (Star greedy r) s c k else None)"

definition matched :: "string \<Rightarrow> string \<Rightarrow> caps \<Rightarrow> (nat \<times> caps) option" where
  "matched s0 s c = Some (length s0 - length s, c)"

text \<open>The least number of code units that a match of a pattern consumes.\<close>

fun min_len :: "rx \<Rightarrow> nat" where
  "min_len (Atom a) = 1"
| "min_len Eps = 0"
| "min_len (Seq r1 r2) = min_len r1 + min_len r2"
| "min_len (Alt r1 r2) = min (min_len r1) (min_len r2)"
| "min_len (Star g r) = 0"
| "min_len (Grp n r) = min_len r"

subsection \<open>Replacement templates\<close>

definition digit_of :: "char \<Rightarrow> nat option" where
  "digit_of c = map_of (zip ''0123456789'' [0 ..< 10]) c"

definition capture_text :: "string option list \<Rightarrow> nat \<Rightarrow> string" where
  "capture_text cs i = (case cs ! (i - 1) of None \<Rightarrow> [] | Some t \<Rightarrow> t)"

text \<open>
  \<open>GetSubstitution\<close>: the text a replacement template stands for, given the matched
  text, what precedes and what follows it, and the captures. \<open>$$\<close> is a dollar, \<open>$&\<close> the
  match, \<open>$`\<close> and \<open>$'\<close> the text before and after it, \<open>$n\<close> and \<open>$nn\<close> a capture when the
  pattern has that many groups; every other \<open>$\<close> stands for itself.
\<close>

function getSubstitution ::
  "string \<Rightarrow> string \<Rightarrow> string \<Rightarrow> string option list \<Rightarrow> string \<Rightarrow> string" where
  "getSubstitution m pre post cs [] = []"
| "getSubstitution m pre post cs [x] = [x]"
| "getSubstitution m pre post cs (x # y # t) =
     (if x \<noteq> CHR ''$'' then x # getSubstitution m pre post cs (y # t)
      else if y = CHR ''$'' then CHR ''$'' # getSubstitution m pre post cs t
      else if y = CHR ''&'' then m @ getSubstitution m pre post cs t
      else if y = CHR 0x60 then pre @ getSubstitution m pre post cs t
      else if y = CHR 0x27 then post @ getSubstitution m pre post cs t
      else
        (case digit_of y of
           None \<Rightarrow> x # getSubstitution m pre post cs (y # t)
         | Some d1 \<Rightarrow>
             (case (case t of [] \<Rightarrow> None | z # _ \<Rightarrow> digit_of z) of
                Some d2 \<Rightarrow>
                  if 10 * d1 + d2 \<le> length cs then
                    (if 1 \<le> 10 * d1 + d2
                     then capture_text cs (10 * d1 + d2) @ getSubstitution m pre post cs (tl t)
                     else x # y # hd t # getSubstitution m pre post cs (tl t))
                  else if 1 \<le> d1 \<and> d1 \<le> length cs
                  then capture_text cs d1 @ getSubstitution m pre post cs t
                  else x # y # getSubstitution m pre post cs t
              | None \<Rightarrow>
                  if 1 \<le> d1 \<and> d1 \<le> length cs
                  then capture_text cs d1 @ getSubstitution m pre post cs t
                  else x # y # getSubstitution m pre post cs t)))"
  by pat_completeness auto
termination
  by (relation "measure (\<lambda>(m, pre, post, cs, t). length t)") auto

text \<open>The captures of a match, as the list \<open>$1, $2, ...\<close> of a pattern.\<close>

definition captures_of :: "regexp \<Rightarrow> caps \<Rightarrow> string option list" where
  "captures_of re c = map (\<lambda>n. map_of c n) [1 ..< Suc (length (groups (pattern re)))]"

subsection \<open>String methods\<close>

text \<open>\<open>String.prototype.replace\<close> with a string to search for: the first occurrence.\<close>

fun replace_str_from :: "string \<Rightarrow> string \<Rightarrow> string \<Rightarrow> string \<Rightarrow> string" where
  "replace_str_from pat tmpl pre [] =
     (if pat = [] then pre @ getSubstitution pat pre [] [] tmpl else pre)"
| "replace_str_from pat tmpl pre (x # xs) =
     (if prefix pat (x # xs)
      then pre @ getSubstitution pat pre (drop (length pat) (x # xs)) [] tmpl
             @ drop (length pat) (x # xs)
      else replace_str_from pat tmpl (pre @ [x]) xs)"

definition string_replace :: "string \<Rightarrow> string \<Rightarrow> string \<Rightarrow> string" where
  "string_replace s pat tmpl = replace_str_from pat tmpl [] s"

text \<open>
  Every match of a pattern with the \<open>g\<close> flag, from left to right: where it starts, its
  length and its captures. After an empty match the search goes on one code unit further.
\<close>

function matches_from :: "regexp \<Rightarrow> string \<Rightarrow> nat \<Rightarrow> (nat \<times> nat \<times> caps) list" where
  "matches_from re s i =
     (if i > length s then []
      else
        (case rx_search re (drop i s) of
           None \<Rightarrow> []
         | Some (j, n, c) \<Rightarrow>
             (i + j, n, c) # matches_from re s (i + j + (if n = 0 then 1 else n))))"
  by pat_completeness auto
termination
  by (relation "measure (\<lambda>(re, s, i). Suc (length s) - i)") auto

text \<open>\<open>String.prototype.match\<close> with such a pattern (\<open>null\<close> is the empty list here).\<close>

definition string_match :: "string \<Rightarrow> regexp \<Rightarrow> string list" where
  "string_match s re = map (\<lambda>(i, n, c). substring s i (i + n)) (matches_from re s 0)"

text \<open>
  The replacement of a list of matches of \<open>s\<close>: the text between the matches is kept and
  every match gives way to what the template stands for.
\<close>

fun splice :: "regexp \<Rightarrow> string \<Rightarrow> string \<Rightarrow> nat \<Rightarrow> (nat \<times> nat \<times> caps) list \<Rightarrow> string" where
  "splice re s tmpl cur [] = drop cur s"
| "splice re s tmpl cur ((i, n, c) # ms) =
     substring s cur i
     @ getSubstitution (substring s i (i + n)) (take i s) (drop (i + n) s) (captures_of re c) tmpl
     @ splice re s tmpl (i + n) ms"

text \<open>
  \<open>String.prototype.replace\<close> with a pattern: the leftmost match when the pattern has no
  \<open>g\<close> flag, every match when it has. \<open>replaceAll\<close> with a pattern that has the \<open>g\<close> flag is
  the same function.
\<close>

definition regexp_replace :: "string \<Rightarrow> regexp \<Rightarrow> string \<Rightarrow> string" where
  "regexp_replace s re tmpl =
     (if global re then splice re s tmpl 0 (matches_from re s 0)
      else splice re s tmpl 0 (case rx_search re s of None \<Rightarrow> [] | Some m \<Rightarrow> [m]))"

text \<open>\<open>String.prototype.replaceAll\<close> with a string to search for.\<close>

function occurrences_from :: "string \<Rightarrow> string \<Rightarrow> nat \<Rightarrow> nat list" where
  "occurrences_from pat s i =
     (if i + length pat > length s then []
      else if take (length pat) (drop i s) = pat
      then i # occurrences_from pat s (i + max 1 (length pat))
      else occurrences_from pat s (Suc i))"
  by pat_completeness auto
termination
  by (relation "measure (\<lambda>(pat, s, i). Suc (length s) - i)") auto

definition string_replaceAll :: "string \<Rightarrow> string \<Rightarrow> string \<Rightarrow> string" where
  "string_replaceAll s pat tmpl =
     splice \<lparr>pattern = Eps, ignoreCase = False, global = True\<rparr> s tmpl 0
       (map (\<lambda>i. (i, length pat, [])) (occurrences_from pat s 0))"

text \<open>\<open>String.prototype.split\<close> at every occurrence of one code unit.\<close>

fun split_at :: "char \<Rightarrow> string \<Rightarrow> string list" where
  "split_at d [] = [[]]"
| "split_at d (x # xs) =
     (if x = d then [] # split_at d xs
      else (case split_at d xs of [] \<Rightarrow> [[x]] | f # fs \<Rightarrow> (x # f) # fs))"

section \<open>The cache key of a resource (getBlobFromURL.ts)\<close>

text \<open>
  \<^verbatim>\<open>
  function getCacheKey(url: string, includeQueryParams: boolean) {
    let key = includeQueryParams ? url : url.replace(/\?.*/, '')
    // font resourse
    if (/ttf|otf|eot|woff2?/i.test(key)) {
      key = key.replace(/.*\//, '')
    }
    return key
  }
  \<close>
\<close>

definition queryRegex :: regexp where
  "queryRegex =
     \<lparr>pattern = Seq (Atom (Lit CHR ''?'')) (Star True (Atom Dot)),
      ignoreCase = False, global = False\<rparr>"

definition fontRegex :: regexp where
  "fontRegex =
     \<lparr>pattern =
        Alt (lits ''ttf'')
          (Alt (lits ''otf'')
             (Alt (lits ''eot'') (Seq (lits ''woff'') (Opt (Atom (Lit CHR ''2'')))))),
      ignoreCase = True, global = False\<rparr>"

definition dirRegex :: regexp where
  "dirRegex =
     \<lparr>pattern = Seq (Star True (Atom Dot)) (Atom (Lit CHR ''/'')),
      ignoreCase = False, global = False\<rparr>"

definition getCacheKey :: "string \<Rightarrow> bool \<Rightarrow> string" where
  "getCacheKey url includeQueryParams =
     (let key = (if includeQueryParams then url else regexp_replace url queryRegex [])
      in if regexp_test fontRegex key then regexp_replace key dirRegex [] else key)"


text \<open>
  What the claims say of the key: a text is font-like when it holds one of the four
  extensions anywhere, in any case; the base name is what follows the last \<open>/\<close>.
\<close>

definition font_like :: "string \<Rightarrow> bool" where
  "font_like key =
     (\<exists>t \<in> set [''ttf'', ''otf'', ''eot'', ''woff'']. sublist (map canon t) (map canon key))"

definition after_last_slash :: "string \<Rightarrow> string" where
  "after_last_slash s = rev (takeWhile (\<lambda>c. c \<noteq> CHR ''/'') (rev s))"

text \<open>
  The same for a text of several lines, where \<open>.\<close> stops at a line terminator: the text
  without what goes from its first \<open>?\<close> to the end of that line, and the text without what
  goes, from the first place after which the line has a \<open>/\<close>, to the last \<open>/\<close> of that line.
\<close>

definition strip_query :: "string \<Rightarrow> string" where
  "strip_query s =
     takeWhile (\<lambda>c. c \<noteq> CHR ''?'') s @
     dropWhile (\<lambda>c. \<not> is_line_terminator c) (dropWhile (\<lambda>c. c \<noteq> CHR ''?'') s)"

primrec strip_directory :: "string \<Rightarrow> string" where
  "strip_directory [] = []"
| "strip_directory (x # xs) =
     (if CHR ''/'' \<in> set (takeWhile (\<lambda>c. \<not> is_line_terminator c) (x # xs))
      then after_last_slash (takeWhile (\<lambda>c. \<not> is_line_terminator c) (x # xs)) @
           dropWhile (\<lambda>c. \<not> is_line_terminator c) (x # xs)
      else x # strip_directory xs)"

section \<open>Futures\<close>

text \<open>
  What is thrown or given as the reason of a rejection: an \<open>Error\<close> with its message, a
  \<open>TypeError\<close>, or some other value of the host (an event, say).
\<close>

datatype reason = Error string | TypeError | Other nat

text \<open>The final state of a future; \<open>Pending\<close> is the future that never settles.\<close>

datatype 'a promise = Resolved 'a | Rejected reason | Pending

text \<open>\<open>p.then(f)\<close> with no handler for a rejection.\<close>

definition then_promise :: "'a promise \<Rightarrow> ('a \<Rightarrow> 'b promise) \<Rightarrow> 'b promise" where
  "then_promise p f =
     (case p of Resolved v \<Rightarrow> f v | Rejected e \<Rightarrow> Rejected e | Pending \<Rightarrow> Pending)"

text \<open>
  \<open>resolve\<close> and \<open>reject\<close> inside \<open>new Promise(...)\<close>: the first call settles the future, a
  later call, and an exception thrown later by the executor, change nothing.
\<close>

definition settle_once :: "'a promise \<Rightarrow> 'a promise \<Rightarrow> 'a promise" where
  "settle_once new cur = (if cur = Pending then new else cur)"

text \<open>
  \<open>Promise.all\<close>: the list of the values when every future is resolved. (Of several
  rejected futures the model takes the reason of the first in the list.)
\<close>

fun promise_all :: "'a promise list \<Rightarrow> 'a list promise" where
  "promise_all [] = Resolved []"
| "promise_all (p # ps) =
     (case p of
        Rejected e \<Rightarrow> Rejected e
      | Pending \<Rightarrow> (case promise_all ps of Rejected e \<Rightarrow> Rejected e | _ \<Rightarrow> Pending)
      | Resolved v \<Rightarrow>
          (case promise_all ps of
             Resolved vs \<Rightarrow> Resolved (v # vs)
           | Rejected e \<Rightarrow> Rejected e
           | Pending \<Rightarrow> Pending))"

section \<open>The resource cache (getBlobFromURL.ts)\<close>

record options =
  includeQueryParams :: bool
  cacheBust :: bool
  imagePlaceholder :: "string option"

record metadata =
  blob :: "string option"
  contentType :: string

text \<open>
  The module keeps \<^verbatim>\<open>const cache: {[url: string]: Promise<Metadata>} = {}\<close>. A future is
  named by the number of the network request that its creation issued; the state is the
  own properties of \<open>cache\<close> and the requests issued so far, each with the options of the
  call that issued it (the closure of \<open>failed\<close>). The object \<open>cache\<close> is an ordinary object:
  reading a key that it does not own finds the property of that name on its prototype,
  when there is one. \<open>inherited\<close> says for which names there is one.
\<close>

record request =
  req_url :: string
  req_options :: options

record blob_state =
  cache :: "string \<rightharpoonup> nat"
  requests :: "request list"

datatype cached = Future nat | Inherited string

text \<open>The names that an object finds on \<open>Object.prototype\<close> in today's engines.\<close>

definition object_prototype :: "string \<Rightarrow> bool" where
  "object_prototype k =
     (k \<in> set [''constructor'', ''hasOwnProperty'', ''isPrototypeOf'', ''propertyIsEnumerable'',
                ''toLocaleString'', ''toString'', ''valueOf'', ''__proto__'',
                ''__defineGetter__'', ''__defineSetter__'', ''__lookupGetter__'',
                ''__lookupSetter__''])"

text \<open>The decimal digits of a number, as \<open>+\<close> turns \<open>new Date().getTime()\<close> into text.\<close>

fun digits :: "nat \<Rightarrow> string" where
  "digits n =
     (if n < 10 then [''0123456789'' ! n]
      else digits (n div 10) @ [''0123456789'' ! (n mod 10)])"

definition number_text :: "int \<Rightarrow> string" where
  "number_text i = (if i < 0 then CHR ''-'' # digits (nat (- i)) else digits (nat i))"

definition questionRegex :: regexp where
  "questionRegex = \<lparr>pattern = Atom (Lit CHR ''?''), ignoreCase = False, global = False\<rparr>"

text \<open>
  \<^verbatim>\<open>url += (/\?/.test(url) ? '&' : '?') + new Date().getTime()\<close> when \<open>cacheBust\<close> is set.
\<close>

definition request_url :: "string \<Rightarrow> options \<Rightarrow> int \<Rightarrow> string" where
  "request_url url opts now =
     (if cacheBust opts
      then url @ (if regexp_test questionRegex url then ''&'' else ''?'') @ number_text now
      else url)"

text \<open>
  \<^verbatim>\<open>
  const cacheKey = getCacheKey(url, !!options.includeQueryParams)
  if (cache[cacheKey] != null) {
    return cache[cacheKey]
  }
  if (options.cacheBust) { url += ... }
  const failed = ...
  const deferred = fetchWithTimeout(window, url).then(...).then(...).then(...).catch(failed)
  cache[cacheKey] = deferred
  return deferred
  \<close>
  Nothing is awaited between the lookup and the store: a call runs to its end before any
  other call starts, so that calls "at the same time" are calls one after the other.
\<close>

definition getBlobFromURL ::
  "(string \<Rightarrow> bool) \<Rightarrow> string \<Rightarrow> options \<Rightarrow> int \<Rightarrow> blob_state \<Rightarrow> cached \<times> blob_state" where
  "getBlobFromURL inherited url opts now st =
     (let cacheKey = getCacheKey url (includeQueryParams opts) in
      case cache st cacheKey of
        Some f \<Rightarrow> (Future f, st)
      | None \<Rightarrow>
          if inherited cacheKey then (Inherited cacheKey, st)
          else
            (let deferred = length (requests st) in
             (Future deferred,
              st\<lparr>cache := (cache st)(cacheKey \<mapsto> deferred),
                 requests := requests st @ [\<lparr>req_url = request_url url opts now, req_options = opts\<rparr>]\<rparr>)))"

text \<open>A list of calls, one after the other: what each returns, and the state at the end.\<close>

fun getBlobs ::
  "(string \<Rightarrow> bool) \<Rightarrow> (string \<times> options \<times> int) list \<Rightarrow> blob_state \<Rightarrow> cached list \<times> blob_state" where
  "getBlobs inherited [] st = ([], st)"
| "getBlobs inherited ((url, opts, now) # calls) st =
     (case getBlobFromURL inherited url opts now st of
        (r, st') \<Rightarrow> (case getBlobs inherited calls st' of (rs, st'') \<Rightarrow> (r # rs, st'')))"

text \<open>
  How a request ends: \<open>fetchWithTimeout\<close> rejects (the network fails, or the request is
  aborted when its 3000 ms are over), \<open>res.blob()\<close> rejects, the reader reports an error,
  the reader ends with \<open>reader.result\<close> and the response has its \<open>Content-Type\<close> header
  (each of them possibly \<open>null\<close>), or nothing of this ever happens.
\<close>

datatype fetch_outcome =
    FetchFailed reason
  | BlobFailed reason
  | ReaderFailed reason
  | ReaderDone "string option" "string option"
  | NoAnswer

text \<open>
  \<^verbatim>\<open>
  const failed = (reason: any): Metadata => {
    let placeholder = ''
    if (options.imagePlaceholder) {
      const parts = options.imagePlaceholder.split(/,/)
      if (parts && parts[1]) {
        placeholder = parts[1]
      }
    }
    ...
    return { blob: placeholder, contentType: '' }
  }
  \<close>
  (What \<open>failed\<close> writes to the console is left out.)
\<close>

definition failed :: "options \<Rightarrow> reason \<Rightarrow> metadata" where
  "failed opts r =
     (let placeholder =
        (case imagePlaceholder opts of
           None \<Rightarrow> []
         | Some p \<Rightarrow>
             if p = [] then []
             else (case split_at CHR '','' p of
                     _ # f # _ \<Rightarrow> f
                   | _ \<Rightarrow> []))
      in \<lparr>blob = Some placeholder, contentType = []\<rparr>)"

text \<open>\<^verbatim>\<open>parseDataUrlContent(dataURL) = dataURL.split(/,/)[1]\<close>, \<open>undefined\<close> without a comma.\<close>

definition parseDataUrlContent :: "string \<Rightarrow> string option" where
  "parseDataUrlContent dataURL =
     (case split_at CHR '','' dataURL of _ # f # _ \<Rightarrow> Some f | _ \<Rightarrow> None)"

text \<open>
  The value of the future \<open>deferred\<close> of a request. A \<open>null\<close> result of the reader makes
  \<open>parseDataUrlContent\<close> throw a \<open>TypeError\<close>, which \<open>.catch(failed)\<close> receives like every
  rejection before it.
\<close>

definition deferred_value :: "request \<Rightarrow> fetch_outcome \<Rightarrow> metadata promise" where
  "deferred_value rq out =
     (case out of
        FetchFailed r \<Rightarrow> Resolved (failed (req_options rq) r)
      | BlobFailed r \<Rightarrow> Resolved (failed (req_options rq) r)
      | ReaderFailed r \<Rightarrow> Resolved (failed (req_options rq) r)
      | ReaderDone None ct \<Rightarrow> Resolved (failed (req_options rq) TypeError)
      | ReaderDone (Some d) ct \<Rightarrow>
          Resolved \<lparr>blob = parseDataUrlContent d,
                    contentType = (case ct of None \<Rightarrow> [] | Some t \<Rightarrow> t)\<rparr>
      | NoAnswer \<Rightarrow> Pending)"

definition is_failure :: "fetch_outcome \<Rightarrow> bool" where
  "is_failure out =
     (case out of
        FetchFailed r \<Rightarrow> True
      | BlobFailed r \<Rightarrow> True
      | ReaderFailed r \<Rightarrow> True
      | ReaderDone None ct \<Rightarrow> True
      | _ \<Rightarrow> False)"

text \<open>
  What the claims say of the placeholder: the second of the fields that the commas of
  \<open>imagePlaceholder\<close> separate, empty when there is none.
\<close>

definition placeholder_field :: "options \<Rightarrow> string" where
  "placeholder_field opts =
     (case imagePlaceholder opts of
        None \<Rightarrow> []
      | Some p \<Rightarrow>
          takeWhile (\<lambda>c. c \<noteq> CHR '','') (drop 1 (dropWhile (\<lambda>c. c \<noteq> CHR '','') p)))"

section \<open>The cache of fetched style sheets (embedWebFonts.ts)\<close>

text \<open>
  \<^verbatim>\<open>
  interface Metadata { url: string; cssText: Promise<string> }
  const cssFetchCache: {[href: string]: Promise<void | Metadata>} = {}

  function fetchCSS(url: string, window: Window): Promise<void | Metadata> {
    const cache = cssFetchCache[url]
    if (cache != null) {
      return cache
    }
    const deferred = window.fetch(url).then((res) => ({
      url,
      cssText: res.blob().then((blob) => new Promise<string>(...)),
    }))
    cssFetchCache[url] = deferred
    return deferred
  }
  \<close>
  The future \<open>deferred\<close> is rejected when \<open>window.fetch\<close> is; once there is a response it
  is resolved, and reading the body is the business of the future \<open>cssText\<close> inside (\<open>meta_cssText\<close>).
\<close>

record sheet_meta =
  meta_url :: string
  meta_cssText :: "string promise"

record css_state =
  cssFetchCache :: "string \<rightharpoonup> nat"
  css_requests :: "string list"

datatype css_outcome = CssFetchFailed reason | CssResponse "string promise" | CssNoAnswer

definition fetchCSS :: "(string \<Rightarrow> bool) \<Rightarrow> string \<Rightarrow> css_state \<Rightarrow> cached \<times> css_state" where
  "fetchCSS inherited url st =
     (case cssFetchCache st url of
        Some f \<Rightarrow> (Future f, st)
      | None \<Rightarrow>
          if inherited url then (Inherited url, st)
          else
            (let deferred = length (css_requests st) in
             (Future deferred,
              st\<lparr>cssFetchCache := (cssFetchCache st)(url \<mapsto> deferred),
                 css_requests := css_requests st @ [url]\<rparr>)))"

fun fetchCSSs :: "(string \<Rightarrow> bool) \<Rightarrow> string list \<Rightarrow> css_state \<Rightarrow> cached list \<times> css_state" where
  "fetchCSSs inherited [] st = ([], st)"
| "fetchCSSs inherited (url # urls) st =
     (case fetchCSS inherited url st of
        (r, st') \<Rightarrow> (case fetchCSSs inherited urls st' of (rs, st'') \<Rightarrow> (r # rs, st'')))"

definition fetchCSS_value :: "string \<Rightarrow> css_outcome \<Rightarrow> sheet_meta promise" where
  "fetchCSS_value url out =
     (case out of
        CssFetchFailed r \<Rightarrow> Rejected r
      | CssResponse p \<Rightarrow> Resolved \<lparr>meta_url = url, meta_cssText = p\<rparr>
      | CssNoAnswer \<Rightarrow> Pending)"

section \<open>Resolving a reference\<close>

text \<open>
  What the host gives: the protocol of the current document
  (\<open>window.location.protocol\<close>), the \<open>href\<close> that an anchor reports in a document made by
  \<open>createHTMLDocument\<close> whose \<open>base\<close> element has the given \<open>href\<close> (or none) when the
  anchor is given the reference, and \<open>new URL(url, base).href\<close>, which throws a
  \<open>TypeError\<close> when it cannot parse (\<open>None\<close>).
\<close>

record host =
  protocol :: string
  anchor_href :: "string option \<Rightarrow> string \<Rightarrow> string"
  newURL :: "string \<Rightarrow> string \<Rightarrow> string option"

text \<open>
  \<^verbatim>\<open>/^[a-z]+:\/\//i\<close>, \<^verbatim>\<open>/^\/\//\<close> and \<^verbatim>\<open>/^[a-z]+:/i\<close>. A pattern that starts with \<open>^\<close> and has
  no \<open>m\<close> flag matches at index 0 or nowhere: the trees hold what follows the \<open>^\<close>, and
  \<open>matches_start\<close> tries index 0 only.
\<close>

definition absoluteRegex :: regexp where
  "absoluteRegex =
     \<lparr>pattern = Seq (Plus True (Atom (Cls False [IAlpha]))) (lits ''://''),
      ignoreCase = True, global = False\<rparr>"

definition slashesRegex :: regexp where
  "slashesRegex = \<lparr>pattern = lits ''//'', ignoreCase = False, global = False\<rparr>"

definition schemeRegex :: regexp where
  "schemeRegex =
     \<lparr>pattern = Seq (Plus True (Atom (Cls False [IAlpha]))) (lits '':''),
      ignoreCase = True, global = False\<rparr>"

definition matches_start :: "regexp \<Rightarrow> string \<Rightarrow> bool" where
  "matches_start re s = (match_here re s \<noteq> None)"

text \<open>
  \<^verbatim>\<open>
  export function resolveUrl(url: string, baseUrl: string | null, document, window): string {
    // url is absolute already
    if (url.match(/^[a-z]+:\/\//i)) { return url }
    // url is absolute already, without protocol
    if (url.match(/^\/\//)) { return window.location.protocol + url }
    // dataURI, mailto:, tel:, etc.
    if (url.match(/^[a-z]+:/i)) { return url }
    const doc = document.implementation.createHTMLDocument()
    const base = doc.createElement('base')
    const a = doc.createElement('a')
    doc.head.appendChild(base)
    doc.body.appendChild(a)
    if (baseUrl) { base.href = baseUrl }
    a.href = url
    return a.href
  }
  \<close>
\<close>

definition resolveUrl :: "host \<Rightarrow> string \<Rightarrow> string option \<Rightarrow> string" where
  "resolveUrl h url baseUrl =
     (if matches_start absoluteRegex url then url
      else if matches_start slashesRegex url then protocol h @ url
      else if matches_start schemeRegex url then url
      else anchor_href h
             (case baseUrl of None \<Rightarrow> None | Some b \<Rightarrow> if b = [] then None else Some b) url)"

text \<open>
  The cases of the contract. A scheme is a run of ASCII letters: the specification names
  schemes, and the patterns of \<open>resolveUrl\<close> take letters only.
\<close>

definition ascii_letter :: "char \<Rightarrow> bool" where
  "ascii_letter c =
     (c \<in> set ''abcdefghijklmnopqrstuvwxyz'' \<or> c \<in> set ''ABCDEFGHIJKLMNOPQRSTUVWXYZ'')"

definition scheme_absolute :: "string \<Rightarrow> bool" where
  "scheme_absolute url =
     (\<exists>scheme rest. url = scheme @ ''://'' @ rest \<and> scheme \<noteq> [] \<and> list_all ascii_letter scheme)"

definition protocol_relative :: "string \<Rightarrow> bool" where
  "protocol_relative url = (\<exists>rest. url = ''//'' @ rest)"

definition has_scheme :: "string \<Rightarrow> bool" where
  "has_scheme url =
     (\<exists>scheme rest. url = scheme @ '':'' @ rest \<and> scheme \<noteq> [] \<and> list_all ascii_letter scheme)"

section \<open>Collecting the font rules of a node (embedWebFonts.ts)\<close>

text \<open>
  A node knows its document or has none; of a document only the list of its style
  sheets matters here. The walk over the style sheets (\<open>getCSSRules\<close>), the test
  \<open>shouldEmbed\<close> and \<open>embedResources\<close> are parameters.
\<close>

record 'sheet document =
  styleSheets :: "'sheet list"

record 'sheet node =
  ownerDocument :: "'sheet document option"

record css_rule =
  rule_type :: nat
  rule_src :: string
  rule_cssText :: string
  rule_parent_href :: "string option option"

definition FONT_FACE_RULE :: nat where
  "FONT_FACE_RULE = 5"

text \<open>
  \<^verbatim>\<open>
  function getWebFontRules(cssRules: CSSStyleRule[]): CSSStyleRule[] {
    return cssRules
      .filter((rule) => rule.type === CSSRule.FONT_FACE_RULE)
      .filter((rule) => shouldEmbed(rule.style.getPropertyValue('src')))
  }
  \<close>
\<close>

definition getWebFontRules :: "(string \<Rightarrow> bool) \<Rightarrow> css_rule list \<Rightarrow> css_rule list" where
  "getWebFontRules shouldEmbed cssRules =
     filter (\<lambda>rule. shouldEmbed (rule_src rule))
       (filter (\<lambda>rule. rule_type rule = FONT_FACE_RULE) cssRules)"

text \<open>
  \<^verbatim>\<open>
  async function parseWebFontRules(node, document, window): Promise<CSSRule[]> {
    return new Promise((resolve, reject) => {
      if (node.ownerDocument == null) {
        reject(new Error('Provided element is not within a Document'))
      }
      resolve(toArray(node.ownerDocument.styleSheets))
    })
      .then((styleSheets: CSSStyleSheet[]) => getCSSRules(styleSheets, document, window))
      .then(getWebFontRules)
  }
  \<close>
  After \<open>reject\<close> the executor goes on: reading \<open>styleSheets\<close> of \<open>null\<close> throws a
  \<open>TypeError\<close>, which would reject the future had it not been settled before.
\<close>

definition parseWebFontRules ::
  "('sheet list \<Rightarrow> css_rule list promise) \<Rightarrow> (string \<Rightarrow> bool) \<Rightarrow> 'sheet node \<Rightarrow>
   css_rule list promise" where
  "parseWebFontRules getCSSRules shouldEmbed node =
     (let p0 = Pending;
          p1 = (if ownerDocument node = None
                then settle_once (Rejected (Error ''Provided element is not within a Document'')) p0
                else p0);
          p2 = (case ownerDocument node of
                  None \<Rightarrow> settle_once (Rejected TypeError) p1
                | Some d \<Rightarrow> settle_once (Resolved (styleSheets d)) p1)
      in then_promise (then_promise p2 getCSSRules)
           (\<lambda>rules. Resolved (getWebFontRules shouldEmbed rules)))"

text \<open>\<open>Array.prototype.join\<close> with a separator.\<close>

fun join :: "string \<Rightarrow> string list \<Rightarrow> string" where
  "join sep [] = []"
| "join sep [x] = x"
| "join sep (x # y # ys) = x @ sep @ join sep (y # ys)"

text \<open>
  \<^verbatim>\<open>
  export async function getWebFontCSS(node, options, document, window): Promise<string> {
    return parseWebFontRules(node, document, window)
      .then((rules) =>
        Promise.all(
          rules.map((rule) => {
            const baseUrl = rule.parentStyleSheet ? rule.parentStyleSheet.href : null
            return embedResources(rule.cssText, baseUrl, options, document, window)
          }),
        ),
      )
      .then((cssTexts) => cssTexts.join('\n'))
  }
  \<close>
\<close>

definition getWebFontCSS ::
  "('sheet list \<Rightarrow> css_rule list promise) \<Rightarrow> (string \<Rightarrow> bool) \<Rightarrow>
   (string \<Rightarrow> string option \<Rightarrow> options \<Rightarrow> string promise) \<Rightarrow> 'sheet node \<Rightarrow> options \<Rightarrow>
   string promise" where
  "getWebFontCSS getCSSRules shouldEmbed embedResources node opts =
     then_promise
       (then_promise (parseWebFontRules getCSSRules shouldEmbed node)
          (\<lambda>rules.
             promise_all
               (map (\<lambda>rule.
                       embedResources (rule_cssText rule)
                         (case rule_parent_href rule of None \<Rightarrow> None | Some href \<Rightarrow> href) opts)
                  rules)))
       (\<lambda>cssTexts. Resolved (join [CHR 0x0A] cssTexts))"

section \<open>Recovering the rule blocks of a style sheet (embedWebFonts.ts)\<close>

text \<open>A sequence of patterns, and the atoms \<open>\s\<close>, \<open>\S\<close>, \<open>\d\<close> and \<open>[\s\S]\<close>.\<close>

fun seqs :: "rx list \<Rightarrow> rx" where
  "seqs [] = Eps"
| "seqs [r] = r"
| "seqs (r # q # rs) = Seq r (seqs (q # rs))"

definition space :: rx where
  "space = Atom (Cls False [ISpace])"

definition nonspace :: rx where
  "nonspace = Atom (Cls False [INonSpace])"

definition digit :: rx where
  "digit = Atom (Cls False [IDigit])"

definition anything :: rx where
  "anything = Atom (Cls False [ISpace, INonSpace])"

text \<open>\<^verbatim>\<open>/(\/\*[\s\S]*?\*\/)/gi\<close>, \<^verbatim>\<open>/[\r\n]/g\<close> and \<^verbatim>\<open>/\s\s+/gi\<close>.\<close>

definition commentsRegex :: regexp where
  "commentsRegex =
     \<lparr>pattern = Grp 1 (seqs [lits ''/*'', Star False anything, lits ''*/'']),
      ignoreCase = True, global = True\<rparr>"

definition newlineRegex :: regexp where
  "newlineRegex =
     \<lparr>pattern = Atom (Cls False [IChar CHR 0x0D, IChar CHR 0x0A]),
      ignoreCase = False, global = True\<rparr>"

definition spacesRegex :: regexp where
  "spacesRegex = \<lparr>pattern = Seq space (Plus True space), ignoreCase = True, global = True\<rparr>"

text \<open>
  \<^verbatim>\<open>/@(-moz-|-webkit-|-ms-)*keyframes\s(\S)+(\s?){(\s?\d%\s?{[-\w:\w+();\s]+}\s?\d+%\s?{[\w:\w();-\s]+)+}}/gi\<close>
  (in the second class \<open>;-\s\<close> is no range: it is \<open>;\<close>, \<open>-\<close> and \<open>\s\<close>).
\<close>

definition keyframesRegex :: regexp where
  "keyframesRegex =
     \<lparr>pattern =
        seqs
          [lits ''@'',
           Star True (Grp 1 (Alt (lits ''-moz-'') (Alt (lits ''-webkit-'') (lits ''-ms-'')))),
           lits ''keyframes'',
           space,
           Plus True (Grp 2 nonspace),
           Grp 3 (Opt space),
           lits ''{'',
           Plus True
             (Grp 4
                (seqs
                   [Opt space, digit, lits ''%'', Opt space, lits ''{'',
                    Plus True
                      (Atom (Cls False
                         [IChar CHR ''-'', IWord, IChar CHR '':'', IWord, IChar CHR ''+'',
                          IChar CHR ''('', IChar CHR '')'', IChar CHR '';'', ISpace])),
                    lits ''}'', Opt space, Plus True digit, lits ''%'', Opt space, lits ''{'',
                    Plus True
                      (Atom (Cls False
                         [IWord, IChar CHR '':'', IWord, IChar CHR ''('', IChar CHR '')'',
                          IChar CHR '';'', IChar CHR ''-'', ISpace]))])),
           lits ''}}''],
      ignoreCase = True, global = True\<rparr>"

text \<open>\<^verbatim>\<open>/@import[\s\S]*?url\([^)]*\)[\s\S]*?;/gi\<close>\<close>

definition importRegex :: regexp where
  "importRegex =
     \<lparr>pattern =
        seqs
          [lits ''@import'', Star False anything, lits ''url('',
           Star True (Atom (Cls True [IChar CHR '')''])), lits '')'',
           Star False anything, lits '';''],
      ignoreCase = True, global = True\<rparr>"

text \<open>
  \<^verbatim>\<open>/((\s*?(?:\/\*[\s\S]*?\*\/)?\s*?@media[\s\S]*?){([\s\S]*?)}\s*?})|(([\s\S]*?){([\s\S]*?)})/\<close>
  with the flags \<open>gi\<close>.
\<close>

definition unifiedRegex :: regexp where
  "unifiedRegex =
     \<lparr>pattern =
        Alt
          (Grp 1
             (seqs
                [Grp 2
                   (seqs
                      [Star False space,
                       Opt (seqs [lits ''/*'', Star False anything, lits ''*/'']),
                       Star False space, lits ''@media'', Star False anything]),
                 lits ''{'', Grp 3 (Star False anything), lits ''}'', Star False space,
                 lits ''}'']))
          (Grp 4
             (seqs
                [Grp 5 (Star False anything), lits ''{'', Grp 6 (Star False anything),
                 lits ''}''])),
      ignoreCase = True, global = True\<rparr>"

text \<open>
  \<^verbatim>\<open>
  while (true) {
    const matches = keyframesRegex.exec(cssText)
    if (matches === null) { break }
    result.push(matches[0])
  }
  \<close>
  \<open>exec\<close> leaves \<open>lastIndex\<close> at the end of the match. After an empty match at \<open>lastIndex\<close>
  the next \<open>exec\<close> would find the same match again: the loop would never end, which is the
  result \<open>None\<close>.
\<close>

function exec_loop :: "regexp \<Rightarrow> string \<Rightarrow> nat \<Rightarrow> string list option" where
  "exec_loop re s lastIndex =
     (case regexp_exec re s lastIndex of
        None \<Rightarrow> Some []
      | Some (i, j) \<Rightarrow>
          if j \<le> lastIndex then None
          else map_option (\<lambda>ms. substring s i j # ms) (exec_loop re s j))"
  by pat_completeness auto
termination
  by (relation "measure (\<lambda>(re, s, lastIndex). Suc (length s) - lastIndex)")
     (auto simp: regexp_exec_def split: if_splits)

text \<open>
  \<^verbatim>\<open>
  while (true) {
    let matches = importRegex.exec(cssText)
    if (matches === null) {
      matches = unifiedRegex.exec(cssText)
      if (matches === null) {
        break
      } else {
        importRegex.lastIndex = unifiedRegex.lastIndex
      }
    } else {
      unifiedRegex.lastIndex = importRegex.lastIndex
    }
    result.push(matches[0])
  }
  \<close>
  Both patterns start with \<open>lastIndex\<close> 0, and at the end of a round both have the end of
  the match of that round: one cursor stands for the two.
\<close>

function scan_loop :: "string \<Rightarrow> nat \<Rightarrow> string list option" where
  "scan_loop s cursor =
     (case regexp_exec importRegex s cursor of
        Some (i, j) \<Rightarrow>
          if j \<le> cursor then None
          else map_option (\<lambda>ms. substring s i j # ms) (scan_loop s j)
      | None \<Rightarrow>
          (case regexp_exec unifiedRegex s cursor of
             None \<Rightarrow> Some []
           | Some (i, j) \<Rightarrow>
               if j \<le> cursor then None
               else map_option (\<lambda>ms. substring s i j # ms) (scan_loop s j)))"
  by pat_completeness auto
termination
  by (relation "measure (\<lambda>(s, cursor). Suc (length s) - cursor)")
     (auto simp: regexp_exec_def split: if_splits)

text \<open>
  \<^verbatim>\<open>
  function parseCSS(source: string) {
    if (source == null) { return [] }
    const result: string[] = []
    const commentsRegex = /(\/\*[\s\S]*?\*\/)/gi
    let cssText = (source as any).replaceAll(commentsRegex, '')   // strip out comments
    cssText = (cssText as any).replaceAll(/[\r\n]/g, '')          // newlines, carriage returns
    cssText = (cssText as any).replaceAll('\t', ' ')              // tabular spaces
    cssText = (cssText as any).replaceAll(/\s\s+/gi, ' ')         // excessive spaces
    const keyframesRegex = ...
    while (true) { ... }                                          // the first loop above
    cssText = (cssText as any).replaceAll(keyframesRegex, '')
    const importRegex = ...
    const unifiedRegex = ...
    while (true) { ... }                                          // the second loop above
    return result
  }
  \<close>
  (The one \<open>commentsRegex.exec(source)\<close> before the first \<open>replaceAll\<close> only feeds the
  console: \<open>replaceAll\<close> starts from index 0 whatever \<open>lastIndex\<close> is.)
\<close>

definition normalise :: "string \<Rightarrow> string" where
  "normalise source =
     regexp_replace
       (string_replaceAll
          (regexp_replace (regexp_replace source commentsRegex []) newlineRegex [])
          [CHR 0x09] '' '')
       spacesRegex '' ''"

definition keyframes_blocks :: "string \<Rightarrow> string list option" where
  "keyframes_blocks cssText = exec_loop keyframesRegex cssText 0"

definition other_blocks :: "string \<Rightarrow> string list option" where
  "other_blocks cssText = scan_loop cssText 0"

definition parseCSS :: "string option \<Rightarrow> string list option" where
  "parseCSS source =
     (case source of
        None \<Rightarrow> Some []
      | Some src \<Rightarrow>
          (let cssText = normalise src in
           case keyframes_blocks cssText of
             None \<Rightarrow> None
           | Some keyframes \<Rightarrow>
               (case other_blocks (regexp_replace cssText keyframesRegex []) of
                  None \<Rightarrow> None
                | Some blocks \<Rightarrow> Some (keyframes @ blocks))))"

text \<open>The matches of a list stand in a text one after the other, in the order of the list.\<close>

fun in_order :: "string list \<Rightarrow> string \<Rightarrow> bool" where
  "in_order [] t = True"
| "in_order (m # ms) t = (\<exists>pre post. t = pre @ m @ post \<and> in_order ms post)"

section \<open>Embedding the fonts of a style sheet (embedWebFonts.ts)\<close>

text \<open>\<^verbatim>\<open>/url\([^)]+\)/g\<close> and \<^verbatim>\<open>/url\(["']?([^"')]+)["']?\)/g\<close>.\<close>

definition locRegex :: regexp where
  "locRegex =
     \<lparr>pattern = seqs [lits ''url('', Plus True (Atom (Cls True [IChar CHR '')''])), lits '')''],
      ignoreCase = False, global = True\<rparr>"

definition regexUrl :: regexp where
  "regexUrl =
     \<lparr>pattern =
        seqs
          [lits ''url('',
           Opt (Atom (Cls False [IChar CHR 0x22, IChar CHR 0x27])),
           Grp 1 (Plus True (Atom (Cls True [IChar CHR 0x22, IChar CHR 0x27, IChar CHR '')'']))),
           Opt (Atom (Cls False [IChar CHR 0x22, IChar CHR 0x27])),
           lits '')''],
      ignoreCase = False, global = True\<rparr>"

text \<open>
  \<^verbatim>\<open>
  const url = loc.replace(regexUrl, '$1')
  let urlToFetch = resolveUrl(url, meta.url, document, window)
  if (!urlToFetch.startsWith('https://')) {
    urlToFetch = new URL(urlToFetch, meta.url).href
  }
  \<close>
  The URL that the task of a reference fetches; \<open>None\<close> when \<open>new URL\<close> throws.
\<close>

definition font_request :: "host \<Rightarrow> string \<Rightarrow> string \<Rightarrow> string option" where
  "font_request h base loc =
     (let url = regexp_replace loc regexUrl ''$1'';
          urlToFetch = resolveUrl h url (Some base)
      in if prefix ''https://'' urlToFetch then Some urlToFetch else newURL h urlToFetch base)"

text \<open>
  What happens while \<open>embedFonts\<close> waits, in the order in which it happens. \<open>LoadEnd i r\<close>:
  the reader of task \<open>i\<close> fires \<open>loadend\<close> with \<open>reader.result\<close> being \<open>r\<close> (\<open>null\<close> is \<open>None\<close>);
  \<open>onloadend\<close> rewrites \<open>cssText\<close> and resolves the task. \<open>TaskFailed i\<close>: the chain of task
  \<open>i\<close> is rejected (by its fetch, by the reading of the body, or by \<open>reject()\<close> in \<open>onerror\<close>
  of its reader), and \<open>.catch\<close> resolves it with \<open>null\<close>; nothing is written. \<open>TimerFired d\<close>:
  a timer set with the delay \<open>d\<close> fires. Each of them is one job of the event loop; the
  micro-tasks that it starts, the settling of \<open>Promise.all\<close> and of \<open>Promise.race\<close> among
  them, run before the next one.

  A reader that fails fires \<open>error\<close> and then \<open>loadend\<close>, with \<open>reader.result\<close> being \<open>null\<close>:
  that is \<open>TaskFailed i\<close> followed by \<open>LoadEnd i None\<close>, and \<open>onloadend\<close> writes \<open>url(null)\<close>
  over the reference when the race is not over by then.
\<close>

datatype font_event = LoadEnd nat "string option" | TaskFailed nat | TimerFired nat

definition reader_error :: "nat \<Rightarrow> font_event list" where
  "reader_error i = [TaskFailed i, LoadEnd i None]"

text \<open>\<^verbatim>\<open>`url(${reader.result})`\<close>: a \<open>null\<close> result is spelled out.\<close>

definition embedded_ref :: "string option \<Rightarrow> string" where
  "embedded_ref result =
     ''url('' @ (case result of None \<Rightarrow> ''null'' | Some dataURL \<Rightarrow> dataURL) @ '')''"

text \<open>
  \<^verbatim>\<open>
  reader.onloadend = () => {
    // Side Effect
    cssText = cssText.replace(loc, `url(${reader.result})`)
    resolve([loc, reader.result])
  }
  \<close>
  The effect of an event on the variable \<open>cssText\<close>, and on which tasks are settled.
  \<open>resolve\<close> after \<open>reject\<close> changes nothing: the task stays settled.
\<close>

fun on_event :: "string list \<Rightarrow> font_event \<Rightarrow> string \<Rightarrow> string" where
  "on_event fontLocs (LoadEnd i result) cssText =
     (if i < length fontLocs then string_replace cssText (fontLocs ! i) (embedded_ref result)
      else cssText)"
| "on_event fontLocs (TaskFailed i) cssText = cssText"
| "on_event fontLocs (TimerFired d) cssText = cssText"

fun settles :: "font_event \<Rightarrow> bool list \<Rightarrow> bool list" where
  "settles (LoadEnd i result) settled = settled[i := True]"
| "settles (TaskFailed i) settled = settled[i := True]"
| "settles (TimerFired d) settled = settled"

text \<open>
  \<^verbatim>\<open>
  const timeoutPromise = new Promise<string>((resolve, reject) => {
    window.setTimeout(() => { resolve('timeout') }, 5000)
  })
  return Promise.race([Promise.all(loadFonts), timeoutPromise]).then((value) => {
    return cssText
  })
  \<close>
  The race is over when every task is settled or when the timer of 5000 ms fires,
  whichever is first; \<open>cssText\<close> is read then. When neither ever happens the future
  stays pending (\<open>None\<close>).
\<close>

fun race :: "string list \<Rightarrow> bool list \<Rightarrow> string \<Rightarrow> font_event list \<Rightarrow> string option" where
  "race fontLocs settled cssText [] = (if list_all id settled then Some cssText else None)"
| "race fontLocs settled cssText (e # es) =
     (if list_all id settled then Some cssText
      else if e = TimerFired 5000 then Some cssText
      else race fontLocs (settles e settled) (on_event fontLocs e cssText) es)"

text \<open>
  \<^verbatim>\<open>
  async function embedFonts(meta: Metadata, document, window): Promise<string> {
    return meta.cssText.then((raw: string) => {
      let cssText = raw
      const regexUrl = /url\(["']?([^"')]+)["']?\)/g
      const fontLocs = cssText.match(/url\([^)]+\)/g) || []
      const loadFonts = fontLocs.map((loc: string, index: number) => {
        ...                                   // the URL of the task, as above
        return window.fetch(urlToFetch)
          .then((res) => res.blob())
          .then((blob) => new Promise((resolve, reject) => {
              const reader = new FileReader()
              reader.onloadend = () => { ... }   // as above
              reader.onerror = () => { reject() }
              reader.readAsDataURL(blob)
          }))
          .catch((reason) => Promise.resolve(null))
      })
      ...                                     // the race, as above
    })
  }
  \<close>
  An exception of \<open>new URL\<close> leaves the callback of \<open>then\<close>: the future is rejected.
\<close>

definition embedFonts :: "host \<Rightarrow> sheet_meta \<Rightarrow> font_event list \<Rightarrow> string promise" where
  "embedFonts h meta events =
     then_promise (meta_cssText meta)
       (\<lambda>raw.
          let fontLocs = string_match raw locRegex in
          if list_ex (\<lambda>loc. font_request h (meta_url meta) loc = None) fontLocs
          then Rejected TypeError
          else
            (case race fontLocs (replicate (length fontLocs) False) raw events of
               None \<Rightarrow> Pending
             | Some cssText \<Rightarrow> Resolved cssText))"



fun replace_first :: "'a \<Rightarrow> 'a \<Rightarrow> 'a list \<Rightarrow> 'a list" where
  "replace_first l r [] = []"
| "replace_first l r (y # ys) = (if y = l then r # ys else y # replace_first l r ys)"






text \<open>
  A host for the examples: its anchor puts the base before the reference, and \<open>new URL\<close>
  throws for \<^verbatim>\<open>http://[\<close>.
\<close>

definition example_host :: host where
  "example_host =
     \<lparr>protocol = ''https:'',
      anchor_href = (\<lambda>b u. (case b of None \<Rightarrow> u | Some x \<Rightarrow> x @ u)),
      newURL = (\<lambda>u b. if u = ''http://['' then None else Some u)\<rparr>"

section \<open>The references of a text, by recursion on the text\<close>

text \<open>
  The match of \<^verbatim>\<open>/url\([^)]+\)/\<close> at the head of a text, the list of the matches of a text
  and the text with its matches replaced, by recursion on the text: the proofs about
  \<open>embedFonts\<close> go along them.
\<close>

definition url_at :: "string \<Rightarrow> string option" where
  "url_at s =
     (if prefix ''url('' s \<and> takeWhile (\<lambda>c. c \<noteq> CHR '')'') (drop 4 s) \<noteq> [] \<and>
         CHR '')'' \<in> set (drop 4 s)
      then Some (''url('' @ takeWhile (\<lambda>c. c \<noteq> CHR '')'') (drop 4 s) @ '')'')
      else None)"

function refs :: "string \<Rightarrow> string list" where
  "refs s =
     (case url_at s of
        Some m \<Rightarrow> m # refs (drop (length m) s)
      | None \<Rightarrow> (case s of [] \<Rightarrow> [] | x # xs \<Rightarrow> refs xs))"
  by pat_completeness auto
termination
  by (relation "measure length") (auto simp: url_at_def prefix_def split: if_splits)

function rewrite :: "string list \<Rightarrow> string \<Rightarrow> string" where
  "rewrite ys s =
     (case url_at s of
        Some m \<Rightarrow> (case ys of [] \<Rightarrow> s | y # ys' \<Rightarrow> y @ rewrite ys' (drop (length m) s))
      | None \<Rightarrow> (case s of [] \<Rightarrow> [] | x # xs \<Rightarrow> x # rewrite ys xs))"
  by pat_completeness auto
termination
  by (relation "measure (\<lambda>(ys, s). length s)") (auto simp: url_at_def prefix_def split: if_splits)


section \<open>Evaluation\<close>

lemma rxm_Seq_eval: "rxm ic (Seq r1 r2) s c k = rxm ic r1 s c (then_match ic r2 k)"
  unfolding then_match_def by simp

lemma rxm_Grp_eval: "rxm ic (Grp n r) s c k = rxm ic r s c (end_group n s k)"
  unfolding end_group_def by simp

lemma rxm_Star_eval:
  "rxm ic (Star greedy r) s c k =
     (if greedy then
        (case rxm ic r s (clear_groups r c) (next_iteration ic greedy r s k) of
           Some v \<Rightarrow> Some v
         | None \<Rightarrow> k s c)
      else
        (case k s c of
           Some v \<Rightarrow> Some v
         | None \<Rightarrow> rxm ic r s (clear_groups r c) (next_iteration ic greedy r s k)))"
  unfolding next_iteration_def by (subst rxm.simps) (rule refl)

lemma match_here_eval: "match_here re s = rxm (ignoreCase re) (pattern re) s [] (matched s)"
  unfolding match_here_def matched_def ..

lemmas rx_eval =
  match_here_eval rxm_Seq_eval rxm_Grp_eval rxm_Star_eval rxm.simps(1,2,4)
  then_match_def end_group_def next_iteration_def matched_def
  regexp_test_def regexp_replace_def regexp_exec_def matches_start_def
  string_match_def substring_def captures_of_def clear_groups_def Opt_def Plus_def canon_def
  is_line_terminator_def is_space_def is_digit_def is_word_def digit_of_def capture_text_def


lemmas key_eval = getCacheKey_def queryRegex_def fontRegex_def dirRegex_def questionRegex_def


section \<open>The cache key\<close>

lemma clear_groups_atom [simp]: "clear_groups (Atom a) c = c"
  by (simp add: clear_groups_def)

lemma star_dot_Nil: "rxm ic (Star True (Atom Dot)) [] c k = k [] c"
  by simp

lemma star_dot_Cons:
  "\<not> is_line_terminator x \<Longrightarrow>
   rxm ic (Star True (Atom Dot)) (x # xs) c k =
     (case rxm ic (Star True (Atom Dot)) xs c k of Some v \<Rightarrow> Some v | None \<Rightarrow> k (x # xs) c)"
  by (subst rxm.simps) simp

lemma star_dot_total:
  assumes "\<forall>x \<in> set s. \<not> is_line_terminator x"
  shows "rxm ic (Star True (Atom Dot)) s c (\<lambda>s' c'. Some (f s' c')) = Some (f [] c)"
  using assms
proof (induction s)
  case Nil
  show ?case by simp
next
  case (Cons x xs)
  then show ?case by (simp add: star_dot_Cons del: rxm.simps)
qed

lemma match_here_query:
  assumes "\<forall>x \<in> set s. \<not> is_line_terminator x"
  shows "match_here queryRegex s =
           (case s of [] \<Rightarrow> None | x # xs \<Rightarrow> if x = CHR ''?'' then Some (length s, []) else None)"
proof (cases s)
  case Nil
  then show ?thesis by (simp add: match_here_def queryRegex_def)
next
  case (Cons x xs)
  with assms have xs: "\<forall>y \<in> set xs. \<not> is_line_terminator y" by simp
  show ?thesis
    using star_dot_total [OF xs, of False "[]" "\<lambda>s' c'. (length s - length s', c')"]
    by (simp add: Cons match_here_def queryRegex_def del: rxm.simps(6)) 
qed

lemma rx_search_query:
  assumes "\<forall>x \<in> set s. \<not> is_line_terminator x"
  shows "rx_search queryRegex s =
           (if CHR ''?'' \<in> set s
            then Some (length (takeWhile (\<lambda>c. c \<noteq> CHR ''?'') s),
                       length (dropWhile (\<lambda>c. c \<noteq> CHR ''?'') s), [])
            else None)"
  using assms
proof (induction s)
  case Nil
  then show ?case by (simp add: match_here_query)
next
  case (Cons x xs)
  then show ?case by (simp add: match_here_query)
qed

lemma replace_query:
  assumes "\<forall>x \<in> set s. \<not> is_line_terminator x"
  shows "regexp_replace s queryRegex [] = takeWhile (\<lambda>c. c \<noteq> CHR ''?'') s"
proof (cases "CHR ''?'' \<in> set s")
  case True
  have "length (takeWhile (\<lambda>c. c \<noteq> CHR ''?'') s) + length (dropWhile (\<lambda>c. c \<noteq> CHR ''?'') s) = length s"
    by (metis length_append takeWhile_dropWhile_id)
  moreover have "take (length (takeWhile (\<lambda>c. c \<noteq> CHR ''?'') s)) s = takeWhile (\<lambda>c. c \<noteq> CHR ''?'') s"
    by (rule takeWhile_eq_take [symmetric])
  moreover have "global queryRegex = False" by (simp add: queryRegex_def)
  ultimately show ?thesis using True
    by (simp add: regexp_replace_def rx_search_query [OF assms] substring_def)
next
  case False
  then have tw: "takeWhile (\<lambda>c. c \<noteq> CHR ''?'') s = s" by (auto simp: takeWhile_eq_all_conv)
  have "global queryRegex = False" by (simp add: queryRegex_def)
  then have r: "regexp_replace s queryRegex [] = s" using False
    by (simp add: regexp_replace_def rx_search_query [OF assms])
  show ?thesis by (simp only: r tw)
qed

lemma lits_match:
  "rxm True (lits w) s c k =
     (if length w \<le> length s \<and> map canon w = map canon (take (length w) s)
      then k (drop (length w) s) c else None)"
proof (induction w arbitrary: s)
  case Nil
  show ?case by simp
next
  case (Cons a w)
  show ?case
  proof (cases s)
    case Nil
    then show ?thesis by simp
  next
    case (Cons x xs)
    then show ?thesis using Cons.IH [of xs] by auto
  qed
qed

lemma prefix_canon:
  "(length w \<le> length s \<and> map canon w = map canon (take (length w) s)) = prefix (map canon w) (map canon s)"
  by (metis length_map prefix_def append_eq_conv_conj take_map prefix_length_le take_is_prefix)

lemma match_here_font:
  "(match_here fontRegex s \<noteq> None) =
     (\<exists>t \<in> set [''ttf'', ''otf'', ''eot'', ''woff'']. prefix (map canon t) (map canon s))"
  unfolding match_here_def fontRegex_def Opt_def
  apply (simp only: regexp.simps rxm.simps(3,4) lits_match prefix_canon)
  apply (auto split: option.splits list.splits)
  done

lemma rx_search_exists:
  "(rx_search re s \<noteq> None) = (\<exists>i \<le> length s. match_here re (drop i s) \<noteq> None)"
proof (induction s)
  case Nil
  show ?case by (auto split: option.splits)
next
  case (Cons x xs)
  show ?case
  proof (cases "match_here re (x # xs)")
    case None
    have "(\<exists>i \<le> length (x # xs). match_here re (drop i (x # xs)) \<noteq> None)
          = (\<exists>i \<le> length xs. match_here re (drop i xs) \<noteq> None)"
    proof
      assume "\<exists>i \<le> length (x # xs). match_here re (drop i (x # xs)) \<noteq> None"
      then obtain i where i: "i \<le> length (x # xs)" "match_here re (drop i (x # xs)) \<noteq> None" by blast
      with None obtain j where "i = Suc j" by (cases i) auto
      with i show "\<exists>i \<le> length xs. match_here re (drop i xs) \<noteq> None" by auto
    next
      assume "\<exists>i \<le> length xs. match_here re (drop i xs) \<noteq> None"
      then obtain i where "i \<le> length xs" "match_here re (drop i xs) \<noteq> None" by blast
      then have "Suc i \<le> length (x # xs)" "match_here re (drop (Suc i) (x # xs)) \<noteq> None" by auto
      then show "\<exists>i \<le> length (x # xs). match_here re (drop i (x # xs)) \<noteq> None" by blast
    qed
    with None Cons.IH show ?thesis by simp
  next
    case (Some a)
    then have "match_here re (drop 0 (x # xs)) \<noteq> None" by simp
    then have "\<exists>i \<le> length (x # xs). match_here re (drop i (x # xs)) \<noteq> None" by blast
    with Some show ?thesis by (auto split: prod.splits)
  qed
qed

lemma sublist_drop: "sublist xs ys = (\<exists>i \<le> length ys. prefix xs (drop i ys))"
proof
  assume "sublist xs ys"
  then obtain ps ss where "ys = ps @ xs @ ss" by (auto simp: sublist_def)
  then have "length ps \<le> length ys" "prefix xs (drop (length ps) ys)" by auto
  then show "\<exists>i \<le> length ys. prefix xs (drop i ys)" by blast
next
  assume "\<exists>i \<le> length ys. prefix xs (drop i ys)"
  then obtain i where "prefix xs (drop i ys)" by blast
  then obtain ss where "drop i ys = xs @ ss" by (auto simp: prefix_def)
  then have "ys = take i ys @ xs @ ss" by (metis append_take_drop_id)
  then show "sublist xs ys" by (auto simp: sublist_def)
qed

lemma test_font: "regexp_test fontRegex key = font_like key"
  unfolding regexp_test_def font_like_def rx_search_exists match_here_font sublist_drop
  by (auto simp: drop_map)


lemma after_last_slash_Cons:
  "after_last_slash (x # xs) =
     (if CHR ''/'' \<in> set xs then after_last_slash xs
      else if x = CHR ''/'' then xs else x # xs)"
proof -
  have a: "\<And>P ys zs. takeWhile P (ys @ zs) = (if \<forall>y \<in> set ys. P y then ys @ takeWhile P zs else takeWhile P ys)"
    by (simp add: takeWhile_append)
  show ?thesis
    by (auto simp: after_last_slash_def takeWhile_append takeWhile_eq_all_conv)
qed

lemma star_dot_slash:
  assumes "\<forall>x \<in> set s. \<not> is_line_terminator x"
  shows "rxm ic (Star True (Atom Dot)) s c
           (\<lambda>s' c'. rxm False (Atom (Lit CHR ''/'')) s' c' (\<lambda>s'' c''. Some (f s'' c''))) =
         (if CHR ''/'' \<in> set s then Some (f (after_last_slash s) c) else None)"
  using assms
proof (induction s)
  case Nil
  show ?case by simp
next
  case (Cons x xs)
  then show ?case
    by (simp add: star_dot_Cons after_last_slash_Cons del: rxm.simps(6))
qed

lemma match_here_dir:
  assumes "\<forall>x \<in> set s. \<not> is_line_terminator x"
  shows "match_here dirRegex s =
           (if CHR ''/'' \<in> set s then Some (length s - length (after_last_slash s), []) else None)"
  using star_dot_slash [OF assms, of False "[]" "\<lambda>s' c'. (length s - length s', c')"]
  by (simp add: match_here_def dirRegex_def del: rxm.simps(6))

lemma after_last_slash_suffix: "suffix (after_last_slash s) s"
  unfolding after_last_slash_def
  by (metis suffix_to_prefix rev_rev_ident takeWhile_is_prefix)

lemma rx_search_dir_none:
  assumes "\<forall>x \<in> set s. \<not> is_line_terminator x" and "CHR ''/'' \<notin> set s"
  shows "rx_search dirRegex s = None"
  using assms by (induction s) (simp_all add: match_here_dir)

lemma replace_dir:
  assumes "\<forall>x \<in> set s. \<not> is_line_terminator x"
  shows "regexp_replace s dirRegex [] = after_last_slash s"
proof -
  have g: "global dirRegex = False" by (simp add: dirRegex_def)
  show ?thesis
  proof (cases "CHR ''/'' \<in> set s")
    case True
    then have "rx_search dirRegex s = Some (0, length s - length (after_last_slash s), [])"
      using match_here_dir [OF assms] by (cases s) simp_all
    moreover have "drop (length s - length (after_last_slash s)) s = after_last_slash s"
    proof -
      obtain zs where zs: "s = zs @ after_last_slash s"
        using after_last_slash_suffix [of s] by (auto simp: suffix_def)
      then have "length s - length (after_last_slash s) = length zs"
        by (metis add_diff_cancel_right' length_append)
      then show ?thesis using zs by (metis append_eq_conv_conj)
    qed
    ultimately show ?thesis using g
      by (simp add: regexp_replace_def substring_def)
  next
    case False
    then have tw: "takeWhile (\<lambda>c. c \<noteq> CHR ''/'') (rev s) = rev s"
      by (auto simp: takeWhile_eq_all_conv)
    have "after_last_slash s = s"
      by (simp only: after_last_slash_def tw rev_rev_ident)
    moreover have "regexp_replace s dirRegex [] = s"
      using g rx_search_dir_none [OF assms False] by (simp add: regexp_replace_def)
    ultimately show ?thesis by simp
  qed
qed

text \<open>The same over several lines: \<open>.\<close> stops at a line terminator.\<close>

lemma star_dot_stop:
  "is_line_terminator x \<Longrightarrow> rxm ic (Star True (Atom Dot)) (x # xs) c k = k (x # xs) c"
  by (subst rxm.simps) simp

lemma star_dot_line:
  "rxm ic (Star True (Atom Dot)) s c (\<lambda>s' c'. Some (f s' c')) =
     Some (f (dropWhile (\<lambda>c. \<not> is_line_terminator c) s) c)"
proof (induction s)
  case Nil
  show ?case by simp
next
  case (Cons x xs)
  then show ?case
    by (cases "is_line_terminator x") (simp_all add: star_dot_Cons star_dot_stop del: rxm.simps)
qed

lemma match_here_query_lines:
  "match_here queryRegex s =
     (case s of [] \<Rightarrow> None
      | x # xs \<Rightarrow>
          if x = CHR ''?''
          then Some (length s - length (dropWhile (\<lambda>c. \<not> is_line_terminator c) xs), [])
          else None)"
proof (cases s)
  case Nil
  then show ?thesis by (simp add: match_here_def queryRegex_def)
next
  case (Cons x xs)
  show ?thesis
    using star_dot_line [of False xs "[]" "\<lambda>s' c'. (length s - length s', c')"]
    by (simp add: Cons match_here_def queryRegex_def del: rxm.simps(6))
qed

lemma regexp_replace_shift:
  assumes "\<not> global re" and "match_here re (x # xs) = None"
  shows "regexp_replace (x # xs) re [] = x # regexp_replace xs re []"
proof (cases "rx_search re xs")
  case None
  with assms show ?thesis by (simp add: regexp_replace_def)
next
  case (Some m)
  obtain i n c where m: "m = (i, n, c)" by (cases m) auto
  with Some assms show ?thesis by (simp add: regexp_replace_def substring_def)
qed

lemma regexp_replace_here:
  assumes "\<not> global re" and "match_here re s = Some (n, c)"
  shows "regexp_replace s re [] = drop n s"
proof -
  from assms(2) have "rx_search re s = Some (0, n, c)" by (cases s) simp_all
  with assms(1) show ?thesis by (simp add: regexp_replace_def substring_def)
qed

lemma regexp_replace_Nil: "\<not> global re \<Longrightarrow> match_here re [] = None \<Longrightarrow> regexp_replace [] re [] = []"
  by (simp add: regexp_replace_def)

lemma drop_to_suffix: "s = a @ b \<Longrightarrow> drop (length s - length b) s = b"
  by simp

lemma replace_query_lines: "regexp_replace s queryRegex [] = strip_query s"
proof (induction s)
  case Nil
  have g: "\<not> global queryRegex" by (simp add: queryRegex_def)
  have "match_here queryRegex [] = None" by (simp add: match_here_query_lines)
  from regexp_replace_Nil [OF g this] show ?case by (simp add: strip_query_def)
next
  case (Cons x xs)
  have g: "\<not> global queryRegex" by (simp add: queryRegex_def)
  show ?case
  proof (cases "x = CHR ''?''")
    case True
    let ?r = "dropWhile (\<lambda>c. \<not> is_line_terminator c) xs"
    have m: "match_here queryRegex (x # xs) = Some (length (x # xs) - length ?r, [])"
      using True by (simp add: match_here_query_lines)
    have "x # xs = (x # takeWhile (\<lambda>c. \<not> is_line_terminator c) xs) @ ?r" by simp
    then have "drop (length (x # xs) - length ?r) (x # xs) = ?r" by (rule drop_to_suffix)
    moreover have "\<not> is_line_terminator x" using True by (simp add: is_line_terminator_def)
    ultimately show ?thesis
      using regexp_replace_here [OF g m] True by (simp add: strip_query_def)
  next
    case False
    then have "match_here queryRegex (x # xs) = None" by (simp add: match_here_query_lines)
    from regexp_replace_shift [OF g this] Cons.IH False show ?thesis by (simp add: strip_query_def)
  qed
qed

lemma star_dot_slash_lines:
  "rxm ic (Star True (Atom Dot)) s c
     (\<lambda>s' c'. rxm False (Atom (Lit CHR ''/'')) s' c' (\<lambda>s'' c''. Some (f s'' c''))) =
   (if CHR ''/'' \<in> set (takeWhile (\<lambda>c. \<not> is_line_terminator c) s)
    then Some (f (after_last_slash (takeWhile (\<lambda>c. \<not> is_line_terminator c) s) @
                  dropWhile (\<lambda>c. \<not> is_line_terminator c) s) c)
    else None)"
proof (induction s)
  case Nil
  show ?case by simp
next
  case (Cons x xs)
  show ?case
  proof (cases "is_line_terminator x")
    case True
    then have "x \<noteq> CHR ''/''" by (auto simp: is_line_terminator_def)
    with True show ?thesis by (simp add: star_dot_stop del: rxm.simps(6))
  next
    case False
    with Cons show ?thesis
      by (simp add: star_dot_Cons after_last_slash_Cons del: rxm.simps(6))
  qed
qed

lemma match_here_dir_lines:
  "match_here dirRegex s =
     (if CHR ''/'' \<in> set (takeWhile (\<lambda>c. \<not> is_line_terminator c) s)
      then Some (length s - length (after_last_slash (takeWhile (\<lambda>c. \<not> is_line_terminator c) s) @
                                    dropWhile (\<lambda>c. \<not> is_line_terminator c) s), [])
      else None)"
  using star_dot_slash_lines [of False s "[]" "\<lambda>s' c'. (length s - length s', c')"]
  by (simp add: match_here_def dirRegex_def del: rxm.simps(6))

lemma replace_dir_lines: "regexp_replace s dirRegex [] = strip_directory s"
proof (induction s)
  case Nil
  have g: "\<not> global dirRegex" by (simp add: dirRegex_def)
  have "match_here dirRegex [] = None" by (simp add: match_here_dir_lines)
  from regexp_replace_Nil [OF g this] show ?case by simp
next
  case (Cons x xs)
  have g: "\<not> global dirRegex" by (simp add: dirRegex_def)
  let ?l = "takeWhile (\<lambda>c. \<not> is_line_terminator c) (x # xs)"
  let ?r = "dropWhile (\<lambda>c. \<not> is_line_terminator c) (x # xs)"
  show ?case
  proof (cases "CHR ''/'' \<in> set ?l")
    case True
    then have m: "match_here dirRegex (x # xs) =
        Some (length (x # xs) - length (after_last_slash ?l @ ?r), [])"
      by (simp only: match_here_dir_lines if_True)
    obtain zs where zs: "?l = zs @ after_last_slash ?l"
      using after_last_slash_suffix [of ?l] by (auto simp: suffix_def)
    have "x # xs = ?l @ ?r" by (simp only: takeWhile_dropWhile_id)
    then have "x # xs = zs @ (after_last_slash ?l @ ?r)" using zs by (metis append_assoc)
    then have "drop (length (x # xs) - length (after_last_slash ?l @ ?r)) (x # xs) =
        after_last_slash ?l @ ?r" by (rule drop_to_suffix)
    with regexp_replace_here [OF g m] have "regexp_replace (x # xs) dirRegex [] = after_last_slash ?l @ ?r"
      by simp
    moreover have "strip_directory (x # xs) = after_last_slash ?l @ ?r"
      using True by (simp only: strip_directory.simps if_True)
    ultimately show ?thesis by simp
  next
    case False
    then have "match_here dirRegex (x # xs) = None"
      by (simp only: match_here_dir_lines if_False)
    from regexp_replace_shift [OF g this] Cons.IH
    have "regexp_replace (x # xs) dirRegex [] = x # strip_directory xs" by simp
    moreover have "strip_directory (x # xs) = x # strip_directory xs"
      using False by (simp only: strip_directory.simps if_False)
    ultimately show ?thesis by simp
  qed
qed

lemma strip_query_line:
  assumes "\<forall>c \<in> set s. \<not> is_line_terminator c"
  shows "strip_query s = takeWhile (\<lambda>c. c \<noteq> CHR ''?'') s"
proof -
  have "\<forall>c \<in> set (dropWhile (\<lambda>c. c \<noteq> CHR ''?'') s). \<not> is_line_terminator c"
    using assms by (auto dest: set_dropWhileD)
  then have "dropWhile (\<lambda>c. \<not> is_line_terminator c) (dropWhile (\<lambda>c. c \<noteq> CHR ''?'') s) = []"
    by (simp add: dropWhile_eq_Nil_conv)
  then show ?thesis by (simp add: strip_query_def)
qed

lemma strip_directory_line:
  assumes "\<forall>c \<in> set s. \<not> is_line_terminator c"
  shows "strip_directory s = after_last_slash s"
  using replace_dir_lines [of s] replace_dir [OF assms] by simp

text \<open>
  Claim C4, as amended. Unless \<open>includeQueryParams\<close> is set, what goes from the first \<open>?\<close>
  of the URL to the end of its line is taken away (all that follows, when the URL has no
  line terminator). When the text so obtained holds one of \<open>ttf\<close>, \<open>otf\<close>, \<open>eot\<close>, \<open>woff\<close>
  anywhere, in any case (as it does when the URL has such an extension), the key is that
  text without what goes, from the first place after which its line has a \<open>/\<close>, to the
  last \<open>/\<close> of that line: for a text without a line terminator, what follows its last \<open>/\<close>,
  and the whole text when it has none. Otherwise the key is that text. So the key of a
  font URL with \<open>includeQueryParams\<close> set is what follows the last \<open>/\<close> of the URL, its
  query string included. The key depends on the URL and the option only.
\<close>

theorem getCacheKey_closed_form:
  "getCacheKey url withQuery =
     (let key = (if withQuery then url else strip_query url)
      in if font_like key then strip_directory key else key) \<and>
   ((\<forall>c \<in> set url. \<not> is_line_terminator c) \<longrightarrow>
    getCacheKey url withQuery =
      (let key = (if withQuery then url else takeWhile (\<lambda>c. c \<noteq> CHR ''?'') url)
       in if font_like key then after_last_slash key else key))"
proof -
  have general: "getCacheKey url withQuery =
      (let key = (if withQuery then url else strip_query url)
       in if font_like key then strip_directory key else key)"
    unfolding getCacheKey_def replace_query_lines replace_dir_lines test_font ..
  moreover have "getCacheKey url withQuery =
      (let key = (if withQuery then url else takeWhile (\<lambda>c. c \<noteq> CHR ''?'') url)
       in if font_like key then after_last_slash key else key)"
    if line: "\<forall>c \<in> set url. \<not> is_line_terminator c"
  proof -
    let ?key = "if withQuery then url else takeWhile (\<lambda>c. c \<noteq> CHR ''?'') url"
    have k: "(if withQuery then url else strip_query url) = ?key"
      by (simp add: strip_query_line [OF line])
    have "\<forall>c \<in> set ?key. \<not> is_line_terminator c"
      using line by (auto dest: set_takeWhileD)
    then have "strip_directory ?key = after_last_slash ?key"
      by (rule strip_directory_line)
    then show ?thesis unfolding general k by (simp add: Let_def)
  qed
  ultimately show ?thesis by blast
qed

theorem getCacheKey_full_url_counterexample:
  "getCacheKey ''https://cdn.example.com/a.woff2?v=1'' True = ''a.woff2?v=1'' \<and>
   getCacheKey ''https://cdn.example.com/a.woff2?v=1'' True \<noteq> ''https://cdn.example.com/a.woff2?v=1''"
  by (simp add: key_eval rx_eval)

theorem getCacheKey_closed_form_witness:
  "getCacheKey ''https://cdn.example.com/a.woff2?v=1'' False = ''a.woff2'' \<and>
   getCacheKey ''https://other.example.com/a.woff2?v=2'' False = ''a.woff2'' \<and>
   getCacheKey ''https://cdn.example.com/a.woff2?v=1'' True = ''a.woff2?v=1'' \<and>
   getCacheKey ''https://x.test/a.ttf?next=/b/c'' True = ''c'' \<and>
   getCacheKey ''a.woff2?v=1'' True = ''a.woff2?v=1'' \<and>
   getCacheKey ''https://x.test/img/a.png?v=1'' False = ''https://x.test/img/a.png''"
proof -
  have l: "\<forall>c \<in> set ''https://cdn.example.com/a.woff2?v=1''. \<not> is_line_terminator c"
    "\<forall>c \<in> set ''https://other.example.com/a.woff2?v=2''. \<not> is_line_terminator c"
    "\<forall>c \<in> set ''https://x.test/a.ttf?next=/b/c''. \<not> is_line_terminator c"
    "\<forall>c \<in> set ''a.woff2?v=1''. \<not> is_line_terminator c"
    "\<forall>c \<in> set ''https://x.test/img/a.png?v=1''. \<not> is_line_terminator c"
    by (simp_all add: is_line_terminator_def)
  have f: "font_like ''https://cdn.example.com/a.woff2''"
    "font_like ''https://other.example.com/a.woff2''"
    "font_like ''https://cdn.example.com/a.woff2?v=1''"
    "font_like ''https://x.test/a.ttf?next=/b/c''"
    "font_like ''a.woff2?v=1''"
    "\<not> font_like ''https://x.test/img/a.png''"
    unfolding test_font [symmetric] by (simp_all add: fontRegex_def rx_eval)
  note k =
    getCacheKey_closed_form [of "''https://cdn.example.com/a.woff2?v=1''" False,
      THEN conjunct2, THEN mp, OF l(1)]
    getCacheKey_closed_form [of "''https://other.example.com/a.woff2?v=2''" False,
      THEN conjunct2, THEN mp, OF l(2)]
    getCacheKey_closed_form [of "''https://cdn.example.com/a.woff2?v=1''" True,
      THEN conjunct2, THEN mp, OF l(1)]
    getCacheKey_closed_form [of "''https://x.test/a.ttf?next=/b/c''" True,
      THEN conjunct2, THEN mp, OF l(3)]
    getCacheKey_closed_form [of "''a.woff2?v=1''" True,
      THEN conjunct2, THEN mp, OF l(4)]
    getCacheKey_closed_form [of "''https://x.test/img/a.png?v=1''" False,
      THEN conjunct2, THEN mp, OF l(5)]
  show ?thesis using f by (simp add: k after_last_slash_def)
qed

section \<open>One request for a key\<close>











section \<open>Failures are cached\<close>

lemma split_at_nonempty: "split_at d s \<noteq> []"
  by (induction s) (auto split: list.splits)

lemma split_at_hd: "hd (split_at d s) = takeWhile (\<lambda>c. c \<noteq> d) s"
  by (induction s) (auto split: list.splits simp: split_at_nonempty)

lemma split_at_tl:
  "tl (split_at d s) =
     (if d \<in> set s then split_at d (drop 1 (dropWhile (\<lambda>c. c \<noteq> d) s)) else [])"
  by (induction s) (auto split: list.splits simp: split_at_nonempty)

lemma split_at_second:
  "(case split_at d s of _ # f # _ \<Rightarrow> f | _ \<Rightarrow> []) =
     takeWhile (\<lambda>c. c \<noteq> d) (drop 1 (dropWhile (\<lambda>c. c \<noteq> d) s))"
proof (cases "d \<in> set s")
  case True
  let ?rest = "drop 1 (dropWhile (\<lambda>c. c \<noteq> d) s)"
  obtain f fs where r: "split_at d ?rest = f # fs"
    using split_at_nonempty [of d ?rest] by (cases "split_at d ?rest") auto
  then have f: "f = takeWhile (\<lambda>c. c \<noteq> d) ?rest"
    using split_at_hd [of d ?rest] by simp
  obtain a as where s: "split_at d s = a # as"
    using split_at_nonempty [of d s] by (cases "split_at d s") auto
  with split_at_tl [of d s] True r have "as = f # fs" by simp
  with s f show ?thesis by simp
next
  case False
  then have dw: "dropWhile (\<lambda>c. c \<noteq> d) s = []" by auto
  obtain a as where s: "split_at d s = a # as"
    using split_at_nonempty [of d s] by (cases "split_at d s") auto
  from split_at_tl [of d s] False s have "as = []" by simp
  with s have "(case split_at d s of _ # f # _ \<Rightarrow> f | _ \<Rightarrow> []) = []" by simp
  then show ?thesis by (simp only: dw drop_Nil takeWhile.simps)
qed

lemma failed_placeholder:
  "failed opts r = \<lparr>blob = Some (placeholder_field opts), contentType = []\<rparr>"
  by (simp add: failed_def placeholder_field_def split_at_second split: option.splits)

lemma deferred_value_failure:
  "is_failure out \<Longrightarrow>
   deferred_value rq out =
     Resolved \<lparr>blob = Some (placeholder_field (req_options rq)), contentType = []\<rparr>"
  by (auto simp: is_failure_def deferred_value_def failed_placeholder
           split: fetch_outcome.splits option.splits)

lemma getBlob_keeps:
  assumes "getBlobFromURL inh url opts now st = (r, st')"
  shows "(\<forall>k f. cache st k = Some f \<longrightarrow> cache st' k = Some f) \<and>
         (\<exists>ext. requests st' = requests st @ ext)"
  using assms
  by (auto simp: getBlobFromURL_def Let_def split: option.splits if_splits)

lemma getBlobs_keeps:
  assumes "getBlobs inh calls st = (rs, st')"
  shows "(\<forall>k f. cache st k = Some f \<longrightarrow> cache st' k = Some f) \<and>
         (\<exists>ext. requests st' = requests st @ ext)"
  using assms
proof (induction calls arbitrary: st rs st')
  case Nil
  then show ?case by simp
next
  case (Cons c calls)
  obtain url opts now where c: "c = (url, opts, now)" by (cases c) auto
  obtain r st1 where f: "getBlobFromURL inh url opts now st = (r, st1)"
    by (cases "getBlobFromURL inh url opts now st") auto
  obtain rs' st2 where g: "getBlobs inh calls st1 = (rs', st2)"
    by (cases "getBlobs inh calls st1") auto
  from Cons.prems c f g have "st' = st2" by simp
  with getBlob_keeps [OF f] Cons.IH [OF g] show ?case by auto
qed

text \<open>
  Claim C3, as amended. When a call finds no entry for its key and the request it issues
  fails (the fetch, the reading of the body or the decoding), the future it returns is
  resolved, not rejected: its content is the second field of \<open>imagePlaceholder\<close> (the
  text between its first and its second comma, or after the first when there is no
  second), empty when there is none, and its content type is empty. The future is the
  entry of the key from then on: whatever calls come in between, a later call with the
  same key returns this future and leaves the state, and so the requests, as they are.
\<close>

theorem getBlobFromURL_failure_cached:
  assumes miss: "cache st (getCacheKey url (includeQueryParams opts)) = None"
    and own: "\<not> inherited (getCacheKey url (includeQueryParams opts))"
    and first: "getBlobFromURL inherited url opts now st = (r, st1)"
    and failure: "is_failure out"
    and between: "getBlobs inherited calls st1 = (rs, st2)"
    and again: "getCacheKey url' (includeQueryParams opts') = getCacheKey url (includeQueryParams opts)"
  shows "r = Future (length (requests st)) \<and>
         deferred_value (requests st1 ! length (requests st)) out =
           Resolved \<lparr>blob = Some (placeholder_field opts), contentType = []\<rparr> \<and>
         getBlobFromURL inherited url' opts' now' st2 = (r, st2) \<and>
         requests st2 ! length (requests st) = requests st1 ! length (requests st)"
proof -
  let ?key = "getCacheKey url (includeQueryParams opts)"
  let ?n = "length (requests st)"
  from first miss own
  have r: "r = Future ?n"
    and st1: "st1 = st\<lparr>cache := (cache st)(?key \<mapsto> ?n),
         requests := requests st @ [\<lparr>req_url = request_url url opts now, req_options = opts\<rparr>]\<rparr>"
    by (auto simp: getBlobFromURL_def Let_def)
  from st1 have rq: "requests st1 ! ?n = \<lparr>req_url = request_url url opts now, req_options = opts\<rparr>"
    and c1: "cache st1 ?key = Some ?n" and len: "?n < length (requests st1)"
    by simp_all
  from getBlobs_keeps [OF between] c1 obtain ext where
    c2: "cache st2 ?key = Some ?n" and ext: "requests st2 = requests st1 @ ext" by auto
  from c2 again have "getBlobFromURL inherited url' opts' now' st2 = (Future ?n, st2)"
    by (simp add: getBlobFromURL_def)
  moreover from ext len have "requests st2 ! ?n = requests st1 ! ?n" by (simp add: nth_append)
  moreover from deferred_value_failure [OF failure, of "requests st1 ! ?n"] rq
  have "deferred_value (requests st1 ! ?n) out =
           Resolved \<lparr>blob = Some (placeholder_field opts), contentType = []\<rparr>" by simp
  ultimately show ?thesis using r by simp
qed

theorem getBlobFromURL_placeholder_counterexample:
  "deferred_value
     \<lparr>req_url = ''https://x.test/i.png'',
      req_options = \<lparr>includeQueryParams = False, cacheBust = False,
                      imagePlaceholder = Some ''data:text/plain,a,b''\<rparr>\<rparr>
     (FetchFailed TypeError) =
   Resolved \<lparr>blob = Some ''a'', contentType = []\<rparr> \<and>
   deferred_value
     \<lparr>req_url = ''https://x.test/i.png'',
      req_options = \<lparr>includeQueryParams = False, cacheBust = False,
                      imagePlaceholder = Some ''data:text/plain,a,b''\<rparr>\<rparr>
     (FetchFailed TypeError) \<noteq>
   Resolved \<lparr>blob = Some ''a,b'', contentType = []\<rparr>"
  by (simp add: deferred_value_def failed_def)

theorem getBlobFromURL_failure_cached_witness:
  "fst (getBlobFromURL object_prototype ''https://x.test/font.ttf''
          \<lparr>includeQueryParams = False, cacheBust = False, imagePlaceholder = None\<rparr> 0
          \<lparr>cache = Map.empty, requests = []\<rparr>) = Future 0 \<and>
   deferred_value
     (requests (snd (getBlobFromURL object_prototype ''https://x.test/font.ttf''
          \<lparr>includeQueryParams = False, cacheBust = False, imagePlaceholder = None\<rparr> 0
          \<lparr>cache = Map.empty, requests = []\<rparr>)) ! 0)
     (FetchFailed (Error ''The operation was aborted.'')) =
   Resolved \<lparr>blob = Some [], contentType = []\<rparr> \<and>
   fst (getBlobFromURL object_prototype ''https://x.test/font.ttf''
          \<lparr>includeQueryParams = False, cacheBust = False, imagePlaceholder = None\<rparr> 5
          (snd (getBlobFromURL object_prototype ''https://x.test/font.ttf''
             \<lparr>includeQueryParams = False, cacheBust = False, imagePlaceholder = None\<rparr> 0
             \<lparr>cache = Map.empty, requests = []\<rparr>))) = Future 0"
proof -
  let ?o = "\<lparr>includeQueryParams = False, cacheBust = False, imagePlaceholder = None\<rparr>"
  let ?st = "\<lparr>cache = Map.empty, requests = []\<rparr>"
  let ?u = "''https://x.test/font.ttf''"
  have k: "getCacheKey ?u (includeQueryParams ?o) = ''font.ttf''"
    by (simp add: key_eval rx_eval)
  have miss: "cache ?st (getCacheKey ?u (includeQueryParams ?o)) = None" by simp
  have own: "\<not> object_prototype (getCacheKey ?u (includeQueryParams ?o))"
    unfolding k by (simp add: object_prototype_def)
  obtain r st1 where first: "getBlobFromURL object_prototype ?u ?o 0 ?st = (r, st1)"
    by (cases "getBlobFromURL object_prototype ?u ?o 0 ?st") auto
  have fl: "is_failure (FetchFailed (Error ''The operation was aborted.''))"
    by (simp add: is_failure_def)
  have between: "getBlobs object_prototype [] st1 = ([], st1)" by simp
  from getBlobFromURL_failure_cached [OF miss own first fl between refl, of 5] first
  show ?thesis by (simp add: placeholder_field_def)
qed

lemma fetchCSS_keeps:
  assumes "fetchCSS inh url st = (r, st')"
  shows "(\<forall>k f. cssFetchCache st k = Some f \<longrightarrow> cssFetchCache st' k = Some f) \<and>
         (\<exists>ext. css_requests st' = css_requests st @ ext)"
  using assms
  by (auto simp: fetchCSS_def Let_def split: option.splits if_splits)

lemma fetchCSSs_keeps:
  assumes "fetchCSSs inh urls st = (rs, st')"
  shows "(\<forall>k f. cssFetchCache st k = Some f \<longrightarrow> cssFetchCache st' k = Some f) \<and>
         (\<exists>ext. css_requests st' = css_requests st @ ext)"
  using assms
proof (induction urls arbitrary: st rs st')
  case Nil
  then show ?case by simp
next
  case (Cons url urls)
  obtain r st1 where f: "fetchCSS inh url st = (r, st1)"
    by (cases "fetchCSS inh url st") auto
  obtain rs' st2 where g: "fetchCSSs inh urls st1 = (rs', st2)"
    by (cases "fetchCSSs inh urls st1") auto
  from Cons.prems f g have "st' = st2" by simp
  with fetchCSS_keeps [OF f] Cons.IH [OF g] show ?case by auto
qed

text \<open>
  Claim C10. A call of \<open>fetchCSS\<close> that finds no entry for its URL issues a request and
  stores the future, also when the fetch fails and the future is rejected: whatever
  calls come in between, a later call for the same URL returns the same future and
  issues no request.
\<close>

theorem fetchCSS_rejection_cached:
  assumes miss: "cssFetchCache st url = None"
    and own: "\<not> inherited url"
    and first: "fetchCSS inherited url st = (r, st1)"
    and between: "fetchCSSs inherited urls st1 = (rs, st2)"
  shows "r = Future (length (css_requests st)) \<and>
         css_requests st1 ! length (css_requests st) = url \<and>
         fetchCSS_value url (CssFetchFailed e) = Rejected e \<and>
         fetchCSS inherited url st2 = (r, st2) \<and>
         css_requests st2 ! length (css_requests st) = url"
proof -
  let ?n = "length (css_requests st)"
  from first miss own
  have r: "r = Future ?n"
    and st1: "st1 = st\<lparr>cssFetchCache := (cssFetchCache st)(url \<mapsto> ?n),
                        css_requests := css_requests st @ [url]\<rparr>"
    by (auto simp: fetchCSS_def Let_def)
  from st1 have rq: "css_requests st1 ! ?n = url"
    and c1: "cssFetchCache st1 url = Some ?n" and len: "?n < length (css_requests st1)"
    by simp_all
  from fetchCSSs_keeps [OF between] c1 obtain ext where
    c2: "cssFetchCache st2 url = Some ?n" and ext: "css_requests st2 = css_requests st1 @ ext"
    by auto
  from c2 have "fetchCSS inherited url st2 = (Future ?n, st2)"
    by (simp add: fetchCSS_def)
  moreover from ext len rq have "css_requests st2 ! ?n = url" by (simp add: nth_append)
  ultimately show ?thesis using r rq by (simp add: fetchCSS_value_def)
qed

theorem fetchCSS_rejection_cached_witness:
  "fst (fetchCSS object_prototype ''https://x.test/a.css''
          \<lparr>cssFetchCache = Map.empty, css_requests = []\<rparr>) = Future 0 \<and>
   fetchCSS_value ''https://x.test/a.css'' (CssFetchFailed TypeError) = Rejected TypeError \<and>
   fetchCSS object_prototype ''https://x.test/a.css''
     (snd (fetchCSSs object_prototype [''https://x.test/b.css'']
        (snd (fetchCSS object_prototype ''https://x.test/a.css''
           \<lparr>cssFetchCache = Map.empty, css_requests = []\<rparr>)))) =
   (Future 0,
    snd (fetchCSSs object_prototype [''https://x.test/b.css'']
        (snd (fetchCSS object_prototype ''https://x.test/a.css''
           \<lparr>cssFetchCache = Map.empty, css_requests = []\<rparr>))))"
proof -
  let ?st = "\<lparr>cssFetchCache = Map.empty, css_requests = []\<rparr>"
  let ?u = "''https://x.test/a.css''"
  have miss: "cssFetchCache ?st ?u = None" by simp
  have own: "\<not> object_prototype ?u" by (simp add: object_prototype_def)
  obtain r st1 where first: "fetchCSS object_prototype ?u ?st = (r, st1)"
    by (cases "fetchCSS object_prototype ?u ?st") auto
  obtain rs st2 where between: "fetchCSSs object_prototype [''https://x.test/b.css''] st1 = (rs, st2)"
    by (cases "fetchCSSs object_prototype [''https://x.test/b.css''] st1") auto
  from fetchCSS_rejection_cached [OF miss own first between, of TypeError] first between
  show ?thesis by simp
qed

section \<open>References and nodes\<close>

lemma lits_match_exact:
  "rxm False (lits w) s c k = (if prefix w s then k (drop (length w) s) c else None)"
proof (induction w arbitrary: s)
  case Nil
  show ?case by simp
next
  case (Cons a w)
  show ?case
  proof (cases s)
    case Nil
    then show ?thesis by simp
  next
    case (Cons x xs)
    then show ?thesis using Cons.IH [of xs] by auto
  qed
qed

lemma alpha_matches: "atom_matches True (Cls False [IAlpha]) x = ascii_letter x"
  by (simp add: ascii_letter_def)

lemma alpha_step:
  "rxm True (Atom (Cls False [IAlpha])) s c k =
     (case s of [] \<Rightarrow> None | x # xs \<Rightarrow> if ascii_letter x then k xs c else None)"
  by (simp only: rxm.simps alpha_matches)

lemma canon_colon: "(canon CHR '':'' = canon c) = (CHR '':'' = c)"
  by (auto simp: canon_def split: if_splits)

lemma canon_slash: "(canon CHR ''/'' = canon c) = (CHR ''/'' = c)"
  by (auto simp: canon_def split: if_splits)

lemma letters_star:
  assumes "\<And>x xs c. ascii_letter x \<Longrightarrow> k (x # xs) c = None"
  shows "rxm True (Star True (Atom (Cls False [IAlpha]))) s c k = k (dropWhile ascii_letter s) c"
proof (induction s)
  case Nil
  show ?case by simp
next
  case (Cons x xs)
  show ?case
  proof (cases "ascii_letter x")
    case True
    have "rxm True (Star True (Atom (Cls False [IAlpha]))) (x # xs) c k =
          (case rxm True (Star True (Atom (Cls False [IAlpha]))) xs c k of
             Some v \<Rightarrow> Some v | None \<Rightarrow> k (x # xs) c)"
      using True by (subst rxm.simps) (simp add: clear_groups_def alpha_step del: rxm.simps)
    with Cons True assms [OF True, of xs c] show ?thesis
      by (simp split: option.splits del: rxm.simps)
  next
    case False
    then show ?thesis by (subst rxm.simps) (simp add: clear_groups_def alpha_step del: rxm.simps)
  qed
qed

lemma scheme_then:
  assumes w: "hd w = CHR '':''" "w \<noteq> []" "set w \<subseteq> {CHR '':'', CHR ''/''}"
  shows "(rxm True (Seq (Plus True (Atom (Cls False [IAlpha]))) (lits w)) s [] (\<lambda>s' c. Some (f s' c)) \<noteq> None)
         = (takeWhile ascii_letter s \<noteq> [] \<and> prefix w (dropWhile ascii_letter s))"
proof -
  let ?k = "\<lambda>s' c'. rxm True (lits w) s' c' (\<lambda>s' c. Some (f s' c))"
  have cw: "\<And>t. (map canon w = map canon t) = (w = t)"
  proof -
    fix t :: string
    show "(map canon w = map canon t) = (w = t)"
      using w(3)
    proof (induction w arbitrary: t)
      case Nil
      show ?case by auto
    next
      case (Cons a w)
      then have a: "a = CHR '':'' \<or> a = CHR ''/''" by simp
      show ?case
      proof (cases t)
        case Nil
        then show ?thesis by simp
      next
        case (Cons b t')
        with Cons.IH [of t'] Cons.prems a show ?thesis
          using canon_colon [of b] canon_slash [of b] by auto
      qed
    qed
  qed
  have kfail: "\<And>x xs c. ascii_letter x \<Longrightarrow> ?k (x # xs) c = None"
  proof -
    fix x xs c assume l: "ascii_letter x"
    obtain w' where w': "w = CHR '':'' # w'" using w by (cases w) auto
    have "canon CHR '':'' \<noteq> canon x"
      using l canon_colon [of x] by (auto simp: ascii_letter_def)
    then show "?k (x # xs) c = None" by (simp add: w')
  qed
  have star: "\<And>t c. rxm True (Star True (Atom (Cls False [IAlpha]))) t c ?k = ?k (dropWhile ascii_letter t) c"
    by (rule letters_star) (rule kfail)
  have k: "\<And>t c. (?k t c \<noteq> None) = prefix w t"
  proof -
    fix t c
    have "(length w \<le> length t \<and> w = take (length w) t) = prefix w t"
      by (metis prefix_def append_eq_conv_conj prefix_length_le take_is_prefix)
    then show "(?k t c \<noteq> None) = prefix w t"
      by (simp add: lits_match cw del: rxm.simps)
  qed
  show ?thesis
  proof (cases s)
    case Nil
    then show ?thesis by (simp add: Plus_def alpha_step del: rxm.simps(1,6))
  next
    case (Cons x xs)
    show ?thesis
    proof (cases "ascii_letter x")
      case True
      have "rxm True (Seq (Plus True (Atom (Cls False [IAlpha]))) (lits w)) s [] (\<lambda>s' c. Some (f s' c))
            = rxm True (Star True (Atom (Cls False [IAlpha]))) xs [] ?k"
        using True Cons by (simp add: Plus_def alpha_step del: rxm.simps(1,6))
      with star [of xs "[]"] k [of "dropWhile ascii_letter xs" "[]"] True Cons
      show ?thesis by simp
    next
      case False
      with Cons show ?thesis by (simp add: Plus_def alpha_step del: rxm.simps(1,6))
    qed
  qed
qed

lemma letters_split:
  "(takeWhile ascii_letter s \<noteq> [] \<and> prefix (CHR '':'' # w) (dropWhile ascii_letter s)) =
   (\<exists>scheme rest. s = scheme @ (CHR '':'' # w) @ rest \<and> scheme \<noteq> [] \<and> list_all ascii_letter scheme)"
proof
  assume a: "takeWhile ascii_letter s \<noteq> [] \<and> prefix (CHR '':'' # w) (dropWhile ascii_letter s)"
  then obtain rest where "dropWhile ascii_letter s = (CHR '':'' # w) @ rest"
    by (auto simp: prefix_def)
  then have "s = takeWhile ascii_letter s @ (CHR '':'' # w) @ rest"
    by (metis takeWhile_dropWhile_id)
  moreover have "list_all ascii_letter (takeWhile ascii_letter s)"
    by (auto simp: list_all_iff dest: set_takeWhileD)
  ultimately show "\<exists>scheme rest. s = scheme @ (CHR '':'' # w) @ rest \<and> scheme \<noteq> [] \<and> list_all ascii_letter scheme"
    using a by blast
next
  assume "\<exists>scheme rest. s = scheme @ (CHR '':'' # w) @ rest \<and> scheme \<noteq> [] \<and> list_all ascii_letter scheme"
  then obtain scheme rest where s: "s = scheme @ (CHR '':'' # w) @ rest" "scheme \<noteq> []"
    "list_all ascii_letter scheme" by blast
  have nl: "\<not> ascii_letter CHR '':''" by (simp add: ascii_letter_def)
  from s(3) have all: "\<forall>x \<in> set scheme. ascii_letter x" by (simp add: list_all_iff)
  have "takeWhile ascii_letter s = scheme"
    unfolding s(1) using all nl by (simp add: takeWhile_append2)
  moreover have "dropWhile ascii_letter s = (CHR '':'' # w) @ rest"
    unfolding s(1) using all nl by (simp add: dropWhile_append2)
  ultimately show "takeWhile ascii_letter s \<noteq> [] \<and> prefix (CHR '':'' # w) (dropWhile ascii_letter s)"
    using s(2) by simp
qed

lemma absolute_iff: "matches_start absoluteRegex url = scheme_absolute url"
  unfolding matches_start_def match_here_def absoluteRegex_def scheme_absolute_def regexp.simps
  using scheme_then [where w = "''://''" and f = "\<lambda>s' c. (length url - length s', c)" and s = url]
        letters_split [of url "''//''"]
  by simp

lemma scheme_iff: "matches_start schemeRegex url = has_scheme url"
  unfolding matches_start_def match_here_def schemeRegex_def has_scheme_def regexp.simps
  using scheme_then [where w = "'':''" and f = "\<lambda>s' c. (length url - length s', c)" and s = url]
        letters_split [of url "[]"]
  by simp

lemma slashes_iff: "matches_start slashesRegex url = protocol_relative url"
  unfolding matches_start_def match_here_def slashesRegex_def protocol_relative_def regexp.simps
  by (simp add: lits_match_exact prefix_def del: lits.simps rxm.simps)

text \<open>
  Claim C7, as amended. \<open>resolveUrl\<close> returns the reference as it is when it starts with
  one or more ASCII letters and \<open>://\<close>, the protocol of the current document and the
  reference when it starts with \<open>//\<close>, the reference as it is when it starts with one or
  more ASCII letters and a colon (whatever the letters: \<open>data:\<close>, \<open>mailto:\<close>, \<open>tel:\<close>, and
  \<open>http:\<close> or \<open>https:\<close> with no \<open>//\<close> after it), and otherwise, also when what stands before
  the colon has a digit, \<open>+\<close>, \<open>-\<close> or \<open>.\<close>, what an anchor in a fresh document reports,
  with \<open>baseUrl\<close> as the base when it is neither \<open>null\<close> nor empty. It is a total function:
  no input makes it fail.
\<close>

theorem resolveUrl_cases:
  "resolveUrl h url baseUrl =
     (if scheme_absolute url then url
      else if protocol_relative url then protocol h @ url
      else if has_scheme url then url
      else anchor_href h
             (case baseUrl of None \<Rightarrow> None | Some b \<Rightarrow> if b = [] then None else Some b) url)"
  by (simp only: resolveUrl_def absolute_iff scheme_iff slashes_iff)

theorem resolveUrl_cases_witness:
  "resolveUrl \<lparr>protocol = ''https:'', anchor_href = (\<lambda>b u. (case b of None \<Rightarrow> u | Some x \<Rightarrow> x @ u)),
                newURL = (\<lambda>u b. Some u)\<rparr> ''//cdn.example.com/a.css'' (Some ''https://x.test/'') =
     ''https://cdn.example.com/a.css'' \<and>
   resolveUrl \<lparr>protocol = ''https:'', anchor_href = (\<lambda>b u. (case b of None \<Rightarrow> u | Some x \<Rightarrow> x @ u)),
                newURL = (\<lambda>u b. Some u)\<rparr> ''data:font/woff2;base64,AAAA'' (Some ''https://x.test/'') =
     ''data:font/woff2;base64,AAAA'' \<and>
   resolveUrl \<lparr>protocol = ''https:'', anchor_href = (\<lambda>b u. (case b of None \<Rightarrow> u | Some x \<Rightarrow> x @ u)),
                newURL = (\<lambda>u b. Some u)\<rparr> ''fonts/a.woff2'' (Some ''https://x.test/'') =
     ''https://x.test/fonts/a.woff2''"
proof -
  let ?h = "\<lparr>protocol = ''https:'', anchor_href = (\<lambda>b u. (case b of None \<Rightarrow> u | Some x \<Rightarrow> x @ u)),
             newURL = (\<lambda>u b. Some u)\<rparr>"
  have a1: "\<not> scheme_absolute ''//cdn.example.com/a.css''"
    unfolding absolute_iff [symmetric] by (simp add: absoluteRegex_def rx_eval)
  have r1: "protocol_relative ''//cdn.example.com/a.css''"
    by (simp add: protocol_relative_def)
  have a2: "\<not> scheme_absolute ''data:font/woff2;base64,AAAA''"
    unfolding absolute_iff [symmetric] by (simp add: absoluteRegex_def rx_eval)
  have r2: "\<not> protocol_relative ''data:font/woff2;base64,AAAA''"
    by (simp add: protocol_relative_def)
  have s2: "has_scheme ''data:font/woff2;base64,AAAA''"
    unfolding scheme_iff [symmetric] by (simp add: schemeRegex_def rx_eval)
  have a3: "\<not> scheme_absolute ''fonts/a.woff2''"
    unfolding absolute_iff [symmetric] by (simp add: absoluteRegex_def rx_eval)
  have r3: "\<not> protocol_relative ''fonts/a.woff2''"
    by (simp add: protocol_relative_def)
  have s3: "\<not> has_scheme ''fonts/a.woff2''"
    unfolding scheme_iff [symmetric] by (simp add: schemeRegex_def rx_eval)
  show ?thesis
    using resolveUrl_cases [of ?h "''//cdn.example.com/a.css''" "Some ''https://x.test/''"]
      resolveUrl_cases [of ?h "''data:font/woff2;base64,AAAA''" "Some ''https://x.test/''"]
      resolveUrl_cases [of ?h "''fonts/a.woff2''" "Some ''https://x.test/''"]
      a1 r1 a2 r2 s2 a3 r3 s3
    by simp
qed

text \<open>
  A reference with the scheme \<open>https\<close> and no \<open>//\<close> is returned as it is, where an anchor
  resolves it against the base.
\<close>

theorem resolveUrl_https_counterexample:
  "resolveUrl \<lparr>protocol = ''https:'',
                anchor_href = (\<lambda>b u. (case b of None \<Rightarrow> u
                                       | Some x \<Rightarrow> x @ (if prefix ''https:'' u then drop 6 u else u))),
                newURL = (\<lambda>u b. Some u)\<rparr> ''https:foo.woff'' (Some ''https://x.test/css/'') =
     ''https:foo.woff'' \<and>
   anchor_href \<lparr>protocol = ''https:'',
                anchor_href = (\<lambda>b u. (case b of None \<Rightarrow> u
                                       | Some x \<Rightarrow> x @ (if prefix ''https:'' u then drop 6 u else u))),
                newURL = (\<lambda>u b. Some u)\<rparr> (Some ''https://x.test/css/'') ''https:foo.woff'' =
     ''https://x.test/css/foo.woff''"
  by (simp add: resolveUrl_def matches_start_def absoluteRegex_def slashesRegex_def
      schemeRegex_def rx_eval)

text \<open>
  Claim C8. For a node without a document \<open>parseWebFontRules\<close>, and with it
  \<open>getWebFontCSS\<close>, is rejected with the error of the executor; nothing is put in the
  place of the result.
\<close>

theorem parseWebFontRules_rejects:
  assumes "ownerDocument node = None"
  shows "parseWebFontRules getCSSRules shouldEmbed node =
           Rejected (Error ''Provided element is not within a Document'') \<and>
         getWebFontCSS getCSSRules shouldEmbed embedResources node opts =
           Rejected (Error ''Provided element is not within a Document'')"
  using assms
  by (simp add: getWebFontCSS_def parseWebFontRules_def settle_once_def then_promise_def)

theorem parseWebFontRules_rejects_witness:
  "parseWebFontRules (\<lambda>sheets :: nat list. Resolved []) (\<lambda>src. True) \<lparr>ownerDocument = None\<rparr> =
     Rejected (Error ''Provided element is not within a Document'') \<and>
   getWebFontCSS (\<lambda>sheets :: nat list. Resolved []) (\<lambda>src. True) (\<lambda>css base opts. Resolved css)
     \<lparr>ownerDocument = None\<rparr>
     \<lparr>includeQueryParams = False, cacheBust = False, imagePlaceholder = None\<rparr> =
     Rejected (Error ''Provided element is not within a Document'')"
proof -
  have h: "ownerDocument (\<lparr>ownerDocument = None\<rparr> :: nat node) = None" by simp
  show ?thesis
    by (rule parseWebFontRules_rejects [OF h])
qed

section \<open>The blocks of a style sheet\<close>





lemma in_order_drop: "in_order ms (drop j s) \<Longrightarrow> in_order ms s"
proof (cases ms)
  case Nil
  then show ?thesis by simp
next
  case (Cons m ms')
  assume "in_order ms (drop j s)"
  with Cons obtain pre post where "drop j s = pre @ m @ post" "in_order ms' post" by auto
  then have "s = (take j s @ pre) @ m @ post" "in_order ms' post"
    by (metis append_take_drop_id append.assoc)+
  with Cons show ?thesis by (simp del: append_assoc) blast
qed



lemma min_len_lits [simp]: "min_len (lits w) = length w"
  by (induction w) simp_all












text \<open>
  Claim C9. For \<open>null\<close> and \<open>undefined\<close> (\<open>source == null\<close>) \<open>parseCSS\<close> returns the empty
  list; nothing is thrown.
\<close>

theorem parseCSS_null: "parseCSS None = Some []"
  by (simp add: parseCSS_def)


theorem parseCSS_null_witness: "parseCSS None = Some [] \<and> parseCSS None \<noteq> None"
  using parseCSS_null by simp

section \<open>The references of a text\<close>

declare refs.simps [simp del] rewrite.simps [simp del] matches_from.simps [simp del]


lemma not_paren [simp]: "atom_matches False (Cls True [IChar CHR '')'']) x = (x \<noteq> CHR '')'')"
  by auto







lemma refs_Nil [simp]: "refs [] = []"
  by (subst refs.simps) (simp add: url_at_def)

lemma rewrite_Nil [simp]: "rewrite ys [] = []"
  by (subst rewrite.simps) (simp add: url_at_def)




























lemma replace_first_length [simp]: "length (replace_first l r ys) = length ys"
  by (induction ys) auto


























section \<open>The fonts of a style sheet\<close>






text \<open>The examples, step by step.\<close>

lemma digit_of_1: "digit_of CHR ''1'' = Some 1"
  by (simp add: digit_of_def upt_rec)

lemma first_capture: "getSubstitution m pre post [Some t] ''$1'' = t"
  by (simp add: digit_of_1 capture_text_def)

lemmas url_eval = regexUrl_def matches_from.simps first_capture rx_eval

lemmas resolve_eval =
  resolveUrl_def absoluteRegex_def slashesRegex_def schemeRegex_def example_host_def rx_eval

lemma refs_example:
  "string_match ''x url(a) y url(b) z'' locRegex = [''url(a)'', ''url(b)'']"
  "string_match ''url(a) url(a)'' locRegex = [''url(a)'', ''url(a)'']"
  "string_match ''url(url(a) url(a)'' locRegex = [''url(url(a)'', ''url(a)'']"
  "string_match ''a{src:url(http://[)}'' locRegex = [''url(http://[)'']"
  by (simp_all add: locRegex_def matches_from.simps rx_eval)

lemma url_example:
  "regexp_replace ''url(a)'' regexUrl ''$1'' = ''a''"
  "regexp_replace ''url(b)'' regexUrl ''$1'' = ''b''"
  "regexp_replace ''url(url(a)'' regexUrl ''$1'' = ''url(a''"
  "regexp_replace ''url(http://[)'' regexUrl ''$1'' = ''http://[''"
  by (simp_all add: url_eval del: getSubstitution.simps)

lemma request_example:
  "font_request example_host ''https://x.test/s/'' ''url(a)'' = Some ''https://x.test/s/a''"
  "font_request example_host ''https://x.test/s/'' ''url(b)'' = Some ''https://x.test/s/b''"
  "font_request example_host ''https://x.test/s/'' ''url(url(a)'' = Some ''https://x.test/s/url(a''"
  "font_request example_host ''https://x.test/s/'' ''url(http://[)'' = None"
  unfolding font_request_def url_example by (simp_all add: resolve_eval)

lemmas font_eval =
  embedFonts_def then_promise_def refs_example request_example embedded_ref_def
  string_replace_def

text \<open>
  A reader that fails: \<open>url(null)\<close> is written when another task is still open, and is
  not part of the result when the failing task was the last to settle.
\<close>

lemma reader_error_example:
  "embedFonts example_host
     \<lparr>meta_url = ''https://x.test/s/'', meta_cssText = Resolved ''x url(a) y url(b) z''\<rparr>
     (reader_error 0 @ [LoadEnd 1 (Some ''data:,y'')]) =
   Resolved ''x url(null) y url(data:,y) z''"
  "embedFonts example_host
     \<lparr>meta_url = ''https://x.test/s/'', meta_cssText = Resolved ''x url(a) y url(b) z''\<rparr>
     (LoadEnd 1 (Some ''data:,y'') # reader_error 0) =
   Resolved ''x url(a) y url(data:,y) z''"
  by (simp_all add: font_eval reader_error_def)







end
